theory Spec2Isabelle
  imports Main "HOL-Library.Word"
begin

unbundle bit_operations_syntax

section \<open>Data model of the compare engine (Engine.cpp)\<close>

text \<open>
  Bytes of a document are \<open>char\<close> values of the source (8 bits, signed under the
  compiler the plugin is built with); line hashes and word hashes are \<open>uint64_t\<close>.
  The \<open>int\<close> variables of the source (line numbers, offsets, lengths, scores) are
  modelled as unbounded integers: every value is bounded by the size of a document,
  far below the 32-bit limit.
\<close>

type_synonym byte = "8 word"
type_synonym uint64 = "64 word"

datatype charType = SPACECHAR | ALPHANUMCHAR | OTHERCHAR

record UserSettings =
  IgnoreCase :: bool
  IgnoreSpaces :: bool
  DetectMoves :: bool
  OldFileViewId :: int

record section_t =
  off :: int
  len :: int

record Word =
  w_type :: charType
  w_line :: int
  w_pos :: int
  w_length :: int
  w_hash :: uint64

subsection \<open>Hasher\<close>

definition cHashSeed :: uint64 where
  "cHashSeed = 0x84222325"

text \<open>
  \<open>Hash\<close>: the \<open>char\<close> is converted to \<open>uint64_t\<close> (sign extension), mixed in by
  exclusive or, and the accumulator is increased by the sum of its shifts.
\<close>

definition Hash :: "uint64 \<Rightarrow> byte \<Rightarrow> uint64" where
  "Hash hval letter =
     (let h = hval XOR scast letter
      in h + (push_bit 1 h + push_bit 4 h + push_bit 5 h + push_bit 7 h + push_bit 8 h
                + push_bit 40 h))"

subsection \<open>Tokenizer\<close>

text \<open>
  Modelled from the spec: \<open>IsCharAlphaNumericA\<close> is a function of the host platform, not
  of this repository. The specification fixes it as the ASCII classification (bytes
  0x30-0x39, 0x41-0x5A, 0x61-0x7A).
\<close>

definition IsCharAlphaNumericA :: "byte \<Rightarrow> bool" where
  "IsCharAlphaNumericA c =
     ((0x30 \<le> c \<and> c \<le> 0x39) \<or> (0x41 \<le> c \<and> c \<le> 0x5A) \<or> (0x61 \<le> c \<and> c \<le> 0x7A))"

definition getCharType :: "byte \<Rightarrow> charType" where
  "getCharType letter =
     (if letter = 0x20 \<or> letter = 0x09 then SPACECHAR
      else if IsCharAlphaNumericA letter \<or> letter = 0x5F then ALPHANUMCHAR
      else OTHERCHAR)"

text \<open>
  Modelled from the spec: \<open>toLowerCase\<close> is declared outside Engine.cpp. The
  specification describes it as folding ASCII upper case to lower case.
\<close>

definition lowerByte :: "byte \<Rightarrow> byte" where
  "lowerByte c = (if 0x41 \<le> c \<and> c \<le> 0x5A then c + 0x20 else c)"

definition toLowerCase :: "byte list \<Rightarrow> byte list" where
  "toLowerCase line = map lowerByte line"

text \<open>
  The loop of \<open>getWords\<close> over \<open>line[i]\<close> for \<open>i = 1 .. lineLen - 1\<close>: the bytes still to
  read, the index \<open>i\<close>, the word under construction and the words pushed so far.
\<close>

fun wordsLoop :: "bool \<Rightarrow> byte list \<Rightarrow> int \<Rightarrow> Word \<Rightarrow> Word list \<Rightarrow> Word \<times> Word list" where
  "wordsLoop ign [] i word ws = (word, ws)"
| "wordsLoop ign (c # cs) i word ws =
     (let newType = getCharType c
      in if newType = w_type word
         then wordsLoop ign cs (i + 1)
                (word\<lparr>w_length := w_length word + 1, w_hash := Hash (w_hash word) c\<rparr>) ws
         else wordsLoop ign cs (i + 1)
                (word\<lparr>w_type := newType, w_hash := Hash cHashSeed c, w_pos := i, w_length := 1\<rparr>)
                (if \<not> ign \<or> w_type word \<noteq> SPACECHAR then ws @ [word] else ws))"

text \<open>
  The body of the loop over the lines in \<open>getWords\<close>, for the vector \<open>line\<close> that
  \<open>getText\<close> returned (the bytes of the line and a terminating zero).
\<close>

definition lineWords :: "UserSettings \<Rightarrow> int \<Rightarrow> byte list \<Rightarrow> Word list" where
  "lineWords settings lineNum line0 =
     (let lineLen = int (length line0) - 1
      in if lineLen > 0
         then (let line = (if IgnoreCase settings then toLowerCase line0 else line0)
               in case take (nat lineLen) line of
                    [] \<Rightarrow> []
                  | c # cs \<Rightarrow>
                      (let (word, ws) =
                             wordsLoop (IgnoreSpaces settings) cs 1
                               \<lparr>w_type = getCharType c, w_line = lineNum, w_pos = 0, w_length = 1,
                                w_hash = Hash cHashSeed c\<rparr> []
                       in if \<not> IgnoreSpaces settings \<or> w_type word \<noteq> SPACECHAR
                          then ws @ [word] else ws))
         else [])"

subsection \<open>The editor and the progress dialog\<close>

text \<open>
  The state the engine reaches through \<open>CallScintilla\<close>: per view the text of the
  document (line ends are single LF bytes), its modification flag, its read-only
  flag, the marker mask of every line and the ranges marked as changed.
\<close>

record sci_view =
  v_text :: "byte list"
  v_modified :: bool
  v_readOnly :: bool
  v_markers :: "int \<Rightarrow> int"
  v_changed :: "(int \<times> int) list"

text \<open>
  Modelled from the spec: the progress dialog (ProgressDlg.h is not part of the
  sources at hand). \<open>Advance\<close> and \<open>NextPhase\<close> answer false once the user has
  cancelled; \<open>p_left\<close> is the number of calls answered true before that happens
  (\<open>None\<close>: the user never cancels).
\<close>

record progress_t =
  p_open :: bool
  p_max :: int
  p_left :: "nat option"

record world =
  mainView :: sci_view
  subView :: sci_view
  progress :: progress_t
  messages :: "string list"

datatype fault = Exception string | UnknownException | UndefinedBehaviour

datatype CompareResult = COMPARE_ERROR | COMPARE_CANCELLED | COMPARE_MATCH | COMPARE_MISMATCH

text \<open>Modelled from the spec: the view identifiers of the host (two distinct values).\<close>

definition MAIN_VIEW :: int where
  "MAIN_VIEW = 0"

definition SUB_VIEW :: int where
  "SUB_VIEW = 1"

text \<open>
  The marker masks are opaque values of the host; the engine only passes them on
  and compares them.
\<close>

record MarkerMasks =
  MARKER_MASK_ADDED :: int
  MARKER_MASK_REMOVED :: int
  MARKER_MASK_ADDED_LOCAL :: int
  MARKER_MASK_REMOVED_LOCAL :: int
  MARKER_MASK_MOVED_LINE :: int
  MARKER_MASK_MOVED_BEGIN :: int
  MARKER_MASK_MOVED_MID :: int
  MARKER_MASK_MOVED_END :: int
  MARKER_MASK_CHANGED :: int

definition getView :: "world \<Rightarrow> int \<Rightarrow> sci_view" where
  "getView w view = (if view = MAIN_VIEW then mainView w else subView w)"

definition setView :: "int \<Rightarrow> sci_view \<Rightarrow> world \<Rightarrow> world" where
  "setView view v w = (if view = MAIN_VIEW then w\<lparr>mainView := v\<rparr> else w\<lparr>subView := v\<rparr>)"

definition Advance :: "world \<Rightarrow> bool \<times> world" where
  "Advance w =
     (case p_left (progress w) of
        None \<Rightarrow> (True, w)
      | Some k \<Rightarrow>
          (case k of
             0 \<Rightarrow> (False, w)
           | Suc k' \<Rightarrow> (True, w\<lparr>progress := (progress w)\<lparr>p_left := Some k'\<rparr>\<rparr>)))"

definition NextPhase :: "world \<Rightarrow> bool \<times> world" where
  "NextPhase w = Advance w"

definition SetMaxCount :: "int \<Rightarrow> world \<Rightarrow> world" where
  "SetMaxCount n w = w\<lparr>progress := (progress w)\<lparr>p_max := n\<rparr>\<rparr>"

text \<open>The idiom \<open>progress && !progress->NextPhase()\<close>: true when the run is cancelled.\<close>

definition phaseCancelled :: "world \<Rightarrow> bool \<times> world" where
  "phaseCancelled w =
     (if p_open (progress w) then (let (ok, w') = NextPhase w in (\<not> ok, w')) else (False, w))"

definition advanceCancelled :: "world \<Rightarrow> bool \<times> world" where
  "advanceCancelled w =
     (if p_open (progress w) then (let (ok, w') = Advance w in (\<not> ok, w')) else (False, w))"

fun splitLines :: "byte list \<Rightarrow> byte list list" where
  "splitLines [] = [[]]"
| "splitLines (c # cs) =
     (if c = 0x0A then [] # splitLines cs
      else (case splitLines cs of [] \<Rightarrow> [[c]] | l # ls \<Rightarrow> (c # l) # ls))"

definition SCI_GETLENGTH :: "sci_view \<Rightarrow> int" where
  "SCI_GETLENGTH v = int (length (v_text v))"

definition SCI_GETLINECOUNT :: "sci_view \<Rightarrow> int" where
  "SCI_GETLINECOUNT v = int (length (splitLines (v_text v)))"

definition SCI_POSITIONFROMLINE :: "sci_view \<Rightarrow> int \<Rightarrow> int" where
  "SCI_POSITIONFROMLINE v n =
     (if n < 0 \<or> SCI_GETLINECOUNT v < n then - 1
      else if n = SCI_GETLINECOUNT v then SCI_GETLENGTH v
      else sum_list (map (\<lambda>l. int (length l) + 1) (take (nat n) (splitLines (v_text v)))))"

definition SCI_GETLINEENDPOSITION :: "sci_view \<Rightarrow> int \<Rightarrow> int" where
  "SCI_GETLINEENDPOSITION v n =
     (if 0 \<le> n \<and> n < SCI_GETLINECOUNT v
      then SCI_POSITIONFROMLINE v n + int (length (splitLines (v_text v) ! nat n))
      else SCI_GETLENGTH v)"

text \<open>
  Modelled from the spec: \<open>getText\<close> is declared outside Engine.cpp; it returns the
  bytes of the range, followed by a terminating zero (the callers subtract one from
  the size of the vector).
\<close>

definition getText :: "sci_view \<Rightarrow> int \<Rightarrow> int \<Rightarrow> byte list" where
  "getText v startPos endPos =
     (if endPos - startPos \<le> 0 then [0]
      else take (nat (endPos - startPos)) (drop (nat startPos) (v_text v)) @ [0])"

definition SCI_MARKERADDSET :: "int \<Rightarrow> int \<Rightarrow> sci_view \<Rightarrow> sci_view" where
  "SCI_MARKERADDSET n msk v = v\<lparr>v_markers := (v_markers v)(n := v_markers v n OR msk)\<rparr>"

text \<open>Modelled from the spec: \<open>markTextAsChanged\<close> paints a byte range of a view.\<close>

definition markTextAsChanged :: "int \<Rightarrow> int \<Rightarrow> sci_view \<Rightarrow> sci_view" where
  "markTextAsChanged p n v = v\<lparr>v_changed := v_changed v @ [(p, n)]\<rparr>"

text \<open>
  \<open>SCI_INSERTTEXT\<close> at position 0: a read-only document ignores it; otherwise the
  text is put in front and the document counts as modified.
\<close>

definition SCI_INSERTTEXT0 :: "byte list \<Rightarrow> sci_view \<Rightarrow> sci_view" where
  "SCI_INSERTTEXT0 txt v =
     (if v_readOnly v then v else v\<lparr>v_text := txt @ v_text v, v_modified := True\<rparr>)"

definition SCI_SETSAVEPOINT :: "sci_view \<Rightarrow> sci_view" where
  "SCI_SETSAVEPOINT v = v\<lparr>v_modified := False\<rparr>"

subsection \<open>Line hashing\<close>

record DocCmpInfo =
  d_view :: int
  d_section :: section_t
  d_blockDiffMask :: int

text \<open>Division of \<open>int\<close> values in the source truncates towards zero.\<close>

definition cdiv :: "int \<Rightarrow> int \<Rightarrow> int" where
  "cdiv a b = sgn a * sgn b * (\<bar>a\<bar> div \<bar>b\<bar>)"

definition hashLine :: "UserSettings \<Rightarrow> sci_view \<Rightarrow> int \<Rightarrow> uint64" where
  "hashLine settings v docLine =
     (let lineStart = SCI_POSITIONFROMLINE v docLine;
          lineEnd = SCI_GETLINEENDPOSITION v docLine
      in if lineEnd - lineStart \<noteq> 0
         then (let line0 = getText v lineStart lineEnd;
                   lineLen = int (length line0) - 1;
                   line = (if IgnoreCase settings then toLowerCase line0 else line0)
               in foldl (\<lambda>h c. if IgnoreSpaces settings \<and> (c = 0x20 \<or> c = 0x09) then h
                                else Hash h c)
                    cHashSeed (take (nat lineLen) line))
         else cHashSeed)"

text \<open>
  The loop over \<open>lineNum\<close> in \<open>computeLineHashes\<close>; \<open>None\<close> is the early return of
  an empty vector when the progress dialog reports a cancel.
\<close>

fun hashLoop :: "UserSettings \<Rightarrow> int \<Rightarrow> int \<Rightarrow> int list \<Rightarrow> uint64 list \<Rightarrow> world
                   \<Rightarrow> uint64 list option \<times> world" where
  "hashLoop settings view secOff [] lineHashes w = (Some lineHashes, w)"
| "hashLoop settings view secOff (lineNum # rest) lineHashes w =
     (if p_open (progress w) \<and> lineNum mod 500 = 0
      then (let (ok, w') = Advance w
            in if \<not> ok then (None, w')
               else hashLoop settings view secOff rest
                      (lineHashes @ [hashLine settings (getView w' view) (lineNum + secOff)]) w')
      else hashLoop settings view secOff rest
             (lineHashes @ [hashLine settings (getView w view) (lineNum + secOff)]) w)"

definition computeLineHashes :: "DocCmpInfo \<Rightarrow> UserSettings \<Rightarrow> world
                                  \<Rightarrow> (fault + uint64 list \<times> DocCmpInfo) \<times> world" where
  "computeLineHashes doc settings w =
     (let v = getView w (d_view doc);
          lineCount0 = SCI_GETLENGTH v;
          lineCount = (if lineCount0 \<noteq> 0 then SCI_GETLINECOUNT v else lineCount0);
          sec = d_section doc;
          sec1 = (if len sec \<le> 0 \<or> off sec + len sec > lineCount
                  then sec\<lparr>len := lineCount - off sec\<rparr> else sec);
          doc1 = doc\<lparr>d_section := sec1\<rparr>;
          w1 = (if p_open (progress w) then SetMaxCount (cdiv (len sec1) 500 + 1) w else w)
      in if len sec1 < 0 then (Inl (Exception ''vector too long''), w1)
         else (case hashLoop settings (d_view doc) (off sec1) (map int [0..<nat (len sec1)]) [] w1 of
                 (None, w2) \<Rightarrow> (Inr ([], doc1), w2)
               | (Some lineHashes, w2) \<Rightarrow>
                   if len sec1 \<noteq> 0 \<and> last lineHashes = cHashSeed
                   then (Inr (butlast lineHashes,
                              doc1\<lparr>d_section := sec1\<lparr>len := len sec1 - 1\<rparr>\<rparr>), w2)
                   else (Inr (lineHashes, doc1), w2)))"

text \<open>
  \<open>getWords\<close>: one word vector per line of the block; a negative \<open>lineCount\<close> makes
  the constructor of the vector throw.
\<close>

definition getWords :: "int \<Rightarrow> int \<Rightarrow> sci_view \<Rightarrow> UserSettings \<Rightarrow> fault + Word list list" where
  "getWords lineOffset lineCount v settings =
     (if lineCount < 0 then Inl (Exception ''vector too long'')
      else Inr (map (\<lambda>lineNum.
                  let docLineNum = lineNum + lineOffset;
                      docLineStart = SCI_POSITIONFROMLINE v docLineNum;
                      docLineEnd = SCI_GETLINEENDPOSITION v docLineNum
                  in lineWords settings lineNum (getText v docLineStart docLineEnd))
             (map int [0..<nat lineCount])))"

subsection \<open>Reference notions of the specification\<close>

text \<open>
  The specification's "maximal same-class runs": the words \<open>ws\<close> tile the bytes
  \<open>line\<close> from position \<open>p\<close> on, every word covers at least one byte, all bytes of
  a word have the word's class, the byte after a word has another class, and the
  hash of a word is the hash of its bytes.
\<close>

fun maximalRunsOf :: "byte list \<Rightarrow> int \<Rightarrow> int \<Rightarrow> Word list \<Rightarrow> bool" where
  "maximalRunsOf line lineNum p [] = (line = [])"
| "maximalRunsOf line lineNum p (w # ws) =
     (w_pos w = p \<and> w_line w = lineNum \<and> 1 \<le> w_length w \<and> nat (w_length w) \<le> length line \<and>
      (\<forall>b \<in> set (take (nat (w_length w)) line). getCharType b = w_type w) \<and>
      w_hash w = foldl Hash cHashSeed (take (nat (w_length w)) line) \<and>
      (case drop (nat (w_length w)) line of [] \<Rightarrow> True | b # _ \<Rightarrow> getCharType b \<noteq> w_type w) \<and>
      maximalRunsOf (drop (nat (w_length w)) line) lineNum (p + w_length w) ws)"

text \<open>The bytes of a line that the tokenizer reads: the vector without its terminating zero,
  after the optional case folding.\<close>

definition lineBody :: "UserSettings \<Rightarrow> byte list \<Rightarrow> byte list" where
  "lineBody s line0 = take (length line0 - 1) (if IgnoreCase s then toLowerCase line0 else line0)"

subsection \<open>FindUnique\<close>

record AlignmentViewData =
  a_line :: int
  a_diffMask :: int

record AlignmentPair =
  a_main :: AlignmentViewData
  a_sub :: AlignmentViewData

definition defaultAlignmentPair :: AlignmentPair where
  "defaultAlignmentPair =
     \<lparr>a_main = \<lparr>a_line = 0, a_diffMask = 0\<rparr>, a_sub = \<lparr>a_line = 0, a_diffMask = 0\<rparr>\<rparr>"

text \<open>
  The \<open>unordered_map\<close> from a hash to the indices of the lines with that hash, as an
  association list in the order of first insertion (the iteration order of the
  container is unspecified; no result below depends on it). \<open>emplaceLine\<close> is
  \<open>emplace(h, {i})\<close> followed, when the key exists, by \<open>emplace_back(i)\<close> on its vector.
\<close>

fun emplaceLine :: "(uint64 \<times> int list) list \<Rightarrow> uint64 \<Rightarrow> int \<Rightarrow> (uint64 \<times> int list) list" where
  "emplaceLine [] h i = [(h, [i])]"
| "emplaceLine ((k, ls) # m) h i =
     (if k = h then (k, ls @ [i]) # m else (k, ls) # emplaceLine m h i)"

definition uniqueLinesMap :: "uint64 list \<Rightarrow> (uint64 \<times> int list) list" where
  "uniqueLinesMap docLineHashes =
     foldl (\<lambda>m i. emplaceLine m (docLineHashes ! i) (int i)) [] [0..<length docLineHashes]"

fun markLines :: "int \<Rightarrow> int \<Rightarrow> int list \<Rightarrow> sci_view \<Rightarrow> sci_view" where
  "markLines secOff msk [] v = v"
| "markLines secOff msk (n # ns) v = markLines secOff msk ns (SCI_MARKERADDSET (n + secOff) msk v)"

text \<open>
  The loop over \<open>doc1UniqueLines\<close>: a hash that \<open>doc2UniqueLines\<close> holds is erased
  there; the lines of any other hash are marked in the first document and counted.
\<close>

fun uniqueLoop :: "(uint64 \<times> int list) list \<Rightarrow> (uint64 \<times> int list) list \<Rightarrow> int \<Rightarrow> int \<Rightarrow> int
                     \<Rightarrow> sci_view \<Rightarrow> (uint64 \<times> int list) list \<times> int \<times> sci_view" where
  "uniqueLoop [] doc2UniqueLines secOff msk cnt v = (doc2UniqueLines, cnt, v)"
| "uniqueLoop ((h, ls) # rest) doc2UniqueLines secOff msk cnt v =
     (if h \<in> fst ` set doc2UniqueLines
      then uniqueLoop rest (filter (\<lambda>e. fst e \<noteq> h) doc2UniqueLines) secOff msk cnt v
      else uniqueLoop rest doc2UniqueLines secOff msk (cnt + int (length ls))
             (markLines secOff msk ls v))"

definition runFindUnique :: "MarkerMasks \<Rightarrow> section_t \<Rightarrow> section_t \<Rightarrow> UserSettings \<Rightarrow> world
                              \<Rightarrow> (fault + CompareResult \<times> AlignmentPair list) \<times> world" where
  "runFindUnique mm mainViewSection subViewSection settings w =
     (let doc1 = \<lparr>d_view = MAIN_VIEW, d_section = mainViewSection,
                  d_blockDiffMask = (if OldFileViewId settings = MAIN_VIEW
                                     then MARKER_MASK_REMOVED mm else MARKER_MASK_ADDED mm)\<rparr>;
          doc2 = \<lparr>d_view = SUB_VIEW, d_section = subViewSection,
                  d_blockDiffMask = (if OldFileViewId settings = MAIN_VIEW
                                     then MARKER_MASK_ADDED mm else MARKER_MASK_REMOVED mm)\<rparr>
      in case computeLineHashes doc1 settings w of
           (Inl e, w1) \<Rightarrow> (Inl e, w1)
         | (Inr (doc1LineHashes, doc1'), w1) \<Rightarrow>
      (case phaseCancelled w1 of
           (True, w2) \<Rightarrow> (Inr (COMPARE_CANCELLED, []), w2)
         | (False, w2) \<Rightarrow>
      (case computeLineHashes doc2 settings w2 of
           (Inl e, w3) \<Rightarrow> (Inl e, w3)
         | (Inr (doc2LineHashes, doc2'), w3) \<Rightarrow>
      (case phaseCancelled w3 of
           (True, w4) \<Rightarrow> (Inr (COMPARE_CANCELLED, []), w4)
         | (False, w4) \<Rightarrow>
      (let doc1UniqueLines = uniqueLinesMap doc1LineHashes
       in case phaseCancelled w4 of
           (True, w5) \<Rightarrow> (Inr (COMPARE_CANCELLED, []), w5)
         | (False, w5) \<Rightarrow>
      (let doc2UniqueLines = uniqueLinesMap doc2LineHashes
       in case phaseCancelled w5 of
           (True, w6) \<Rightarrow> (Inr (COMPARE_CANCELLED, []), w6)
         | (False, w6) \<Rightarrow>
      (let (doc2Rest, doc1UniqueLinesCount, v1) =
             uniqueLoop doc1UniqueLines doc2UniqueLines (off (d_section doc1'))
               (d_blockDiffMask doc1') 0 (getView w6 (d_view doc1'));
           w7 = setView (d_view doc1') v1 w6
       in if doc1UniqueLinesCount = 0 \<and> doc2Rest = [] then (Inr (COMPARE_MATCH, []), w7)
          else (let v2 = foldl (\<lambda>v e. markLines (off (d_section doc2')) (d_blockDiffMask doc2')
                                         (snd e) v)
                           (getView w7 (d_view doc2')) doc2Rest;
                    w8 = setView (d_view doc2') v2 w7;
                    align = defaultAlignmentPair
                              \<lparr>a_main := (a_main defaultAlignmentPair)\<lparr>a_line := off mainViewSection\<rparr>,
                               a_sub := (a_sub defaultAlignmentPair)\<lparr>a_line := off subViewSection\<rparr>\<rparr>
                in (Inr (COMPARE_MISMATCH, [align]), w8)))))))))"

text \<open>The hash of the bytes of a line, as the specification describes line hashing.\<close>

definition lineHashOf :: "UserSettings \<Rightarrow> byte list \<Rightarrow> uint64" where
  "lineHashOf settings bytes =
     foldl (\<lambda>h c. if IgnoreSpaces settings \<and> (c = 0x20 \<or> c = 0x09) then h else Hash h c)
       cHashSeed (if IgnoreCase settings then toLowerCase bytes else bytes)"

text \<open>The length of the compared section as \<open>computeLineHashes\<close> fixes it before hashing.\<close>

definition sectionLen :: "DocCmpInfo \<Rightarrow> world \<Rightarrow> int" where
  "sectionLen doc w =
     (let v = getView w (d_view doc);
          lineCount = (if SCI_GETLENGTH v \<noteq> 0 then SCI_GETLINECOUNT v else 0);
          sec = d_section doc
      in if len sec \<le> 0 \<or> off sec + len sec > lineCount then lineCount - off sec else len sec)"

definition neverCancelled :: "world \<Rightarrow> bool" where
  "neverCancelled w = (\<not> p_open (progress w) \<or> p_left (progress w) = None)"

subsection \<open>Concrete inputs\<close>

text \<open>
  A view that holds the text \<open>t\<close> (unmodified, writable, no markers), a world of two
  such views with an open progress dialog, and settings and document descriptors
  given by their fields.
\<close>

definition viewOf :: "byte list \<Rightarrow> sci_view" where
  "viewOf t = \<lparr>v_text = t, v_modified = False, v_readOnly = False, v_markers = (\<lambda>_. 0), v_changed = []\<rparr>"

definition worldOf :: "byte list \<Rightarrow> byte list \<Rightarrow> nat option \<Rightarrow> world" where
  "worldOf t1 t2 cancelAfter = \<lparr>mainView = viewOf t1, subView = viewOf t2,
      progress = \<lparr>p_open = True, p_max = 0, p_left = cancelAfter\<rparr>, messages = []\<rparr>"

definition settingsOf :: "bool \<Rightarrow> bool \<Rightarrow> bool \<Rightarrow> UserSettings" where
  "settingsOf ic isp dm = \<lparr>IgnoreCase = ic, IgnoreSpaces = isp, DetectMoves = dm, OldFileViewId = MAIN_VIEW\<rparr>"

definition docOf :: "int \<Rightarrow> int \<Rightarrow> int \<Rightarrow> DocCmpInfo" where
  "docOf view secOff secLen = \<lparr>d_view = view, d_section = \<lparr>off = secOff, len = secLen\<rparr>, d_blockDiffMask = 0\<rparr>"

subsection \<open>Block diffs\<close>

datatype diff_type = DIFF_MATCH | DIFF_IN_1 | DIFF_IN_2

text \<open>
  A span as \<open>DiffCalc\<close> returns it (\<open>diff_info\<close> without user data). \<open>DiffCalc\<close> itself
  (diff.h) is not part of the sources at hand: the functions below take it as a
  parameter, \<open>diffLines\<close> for the line hashes and \<open>diffWords\<close> for the words of two lines.
\<close>

record diff_span =
  sp_type :: diff_type
  sp_off :: int
  sp_len :: int

record diffLine =
  dl_line :: int
  dl_changes :: "section_t list"

text \<open>
  Blocks refer to each other by their index in \<open>blockDiffs\<close> where the source holds
  pointers into that vector.
\<close>

record blockDiffInfo =
  matchBlock :: "nat option"
  changedLines :: "diffLine list"
  matches :: "(section_t \<times> bool) list"

record diffInfo =
  bd_type :: diff_type
  bd_off :: int
  bd_len :: int
  bd_info :: blockDiffInfo

definition emptyInfo :: blockDiffInfo where
  "emptyInfo = \<lparr>matchBlock = None, changedLines = [], matches = []\<rparr>"

definition blockOfSpan :: "diff_span \<Rightarrow> diffInfo" where
  "blockOfSpan sp = \<lparr>bd_type = sp_type sp, bd_off = sp_off sp, bd_len = sp_len sp, bd_info = emptyInfo\<rparr>"

text \<open>
  \<open>matchedSection\<close> returns the length of the match that holds \<open>line\<close> and its moved
  flag; the source leaves the flag untouched when it returns 0, and reads it only
  when the length is not 0.
\<close>

fun matchedSection :: "(section_t \<times> bool) list \<Rightarrow> int \<Rightarrow> int \<times> bool" where
  "matchedSection [] n = (0, False)"
| "matchedSection (m # ms) n =
     (if n \<ge> off (fst m) \<and> n \<le> off (fst m) + len (fst m) - 1 then (len (fst m), snd m)
      else matchedSection ms n)"

definition blockMatched :: "diffInfo \<Rightarrow> int \<Rightarrow> int" where
  "blockMatched bd n = fst (matchedSection (matches (bd_info bd)) n)"

record MatchInfo =
  mi_sec :: section_t
  matchesIn1 :: "(nat \<times> int) list"
  matchesIn2 :: "(nat \<times> int) list"

definition newMatchInfo :: MatchInfo where
  "newMatchInfo = \<lparr>mi_sec = \<lparr>off = 0, len = 0\<rparr>, matchesIn1 = [], matchesIn2 = []\<rparr>"

subsection \<open>MoveFinder\<close>

text \<open>
  The two extension loops of \<open>findMatches\<close>. The hash vectors are read at
  \<open>diff.off + i\<close>, inside the vectors for blocks that \<open>DiffCalc\<close> computed from them.
\<close>

function scanStart :: "uint64 list \<Rightarrow> uint64 list \<Rightarrow> diffInfo \<Rightarrow> diffInfo \<Rightarrow> int \<Rightarrow> int \<Rightarrow> int \<times> int" where
  "scanStart lineHashes1 lineHashes2 diff1 diff2 start1 start2 =
     (if start1 \<ge> 0 \<and> start2 \<ge> 0 \<and> blockMatched diff2 start2 = 0 \<and>
         lineHashes1 ! nat (bd_off diff1 + start1) = lineHashes2 ! nat (bd_off diff2 + start2)
      then scanStart lineHashes1 lineHashes2 diff1 diff2 (start1 - 1) (start2 - 1)
      else (start1, start2))"
  by pat_completeness auto
termination
  by (relation "measure (\<lambda>(h1, h2, d1, d2, s1, s2). nat (s1 + 1))") auto

declare scanStart.simps [simp del]

function scanEnd :: "uint64 list \<Rightarrow> uint64 list \<Rightarrow> diffInfo \<Rightarrow> diffInfo \<Rightarrow> int \<Rightarrow> int \<Rightarrow> int" where
  "scanEnd lineHashes1 lineHashes2 diff1 diff2 end1 end2 =
     (if end1 < bd_len diff1 \<and> end2 < bd_len diff2 \<and> blockMatched diff2 end2 = 0 \<and>
         lineHashes1 ! nat (bd_off diff1 + end1) = lineHashes2 ! nat (bd_off diff2 + end2)
      then scanEnd lineHashes1 lineHashes2 diff1 diff2 (end1 + 1) (end2 + 1)
      else end1)"
  by pat_completeness auto
termination
  by (relation "measure (\<lambda>(h1, h2, d1, d2, e1, e2). nat (bd_len d1 - e1))") auto

declare scanEnd.simps [simp del]

text \<open>
  One iteration of the loop over \<open>ei2\<close> in \<open>findMatches\<close> for the block \<open>diff2\<close> (at
  index \<open>d2\<close>): from \<open>mi\<close>, \<open>minMatchLen\<close> and \<open>ei2\<close> to their values after the
  increment of \<open>ei2\<close>.
\<close>

definition findMatchesStep ::
  "uint64 list \<Rightarrow> uint64 list \<Rightarrow> diffInfo \<Rightarrow> int \<Rightarrow> nat \<Rightarrow> diffInfo \<Rightarrow> MatchInfo \<Rightarrow> int \<Rightarrow> int
     \<Rightarrow> MatchInfo \<times> int \<times> int" where
  "findMatchesStep lineHashes1 lineHashes2 diff1 ei1 d2 diff2 mi minMatchLen ei2 =
     (if lineHashes1 ! nat (bd_off diff1 + ei1) \<noteq> lineHashes2 ! nat (bd_off diff2 + ei2)
      then (mi, minMatchLen, ei2 + 1)
      else if blockMatched diff2 ei2 \<noteq> 0
      then (mi, minMatchLen, ei2 + (blockMatched diff2 ei2 - 1) + 1)
      else (let st = scanStart lineHashes1 lineHashes2 diff1 diff2 (ei1 - 1) (ei2 - 1);
                start1 = fst st + 1;
                start2 = snd st + 1;
                end1 = scanEnd lineHashes1 lineHashes2 diff1 diff2 (ei1 + 1) (ei2 + 1) - 1;
                matchLen = end1 - start1 + 1
            in if len (mi_sec mi) > matchLen
               then (mi, minMatchLen, ei2 + 1)
               else (let mi1 = (if len (mi_sec mi) < matchLen
                                then mi\<lparr>mi_sec := \<lparr>off = start1, len = matchLen\<rparr>, matchesIn2 := []\<rparr>
                                else mi);
                         minMatchLen1 = (if len (mi_sec mi) < matchLen then matchLen else minMatchLen)
                     in if len (mi_sec mi1) = matchLen
                        then (mi1\<lparr>matchesIn2 := matchesIn2 mi1 @ [(d2, start2)]\<rparr>, minMatchLen1,
                              start2 + matchLen - 1 + 1)
                        else (mi1, minMatchLen1, ei2 + 1))))"

text \<open>
  The loop itself. Its termination rests on the recorded matches having positive
  lengths, so it is a partial function: \<open>None\<close> stands for a loop that does not
  return.
\<close>

partial_function (option) findMatchesLoop ::
  "uint64 list \<Rightarrow> uint64 list \<Rightarrow> diffInfo \<Rightarrow> int \<Rightarrow> nat \<Rightarrow> diffInfo \<Rightarrow> MatchInfo \<Rightarrow> int \<Rightarrow> int
     \<Rightarrow> (MatchInfo \<times> int) option" where
  "findMatchesLoop lineHashes1 lineHashes2 diff1 ei1 d2 diff2 mi minMatchLen ei2 =
     (if bd_len diff2 - ei2 \<ge> minMatchLen
      then (case findMatchesStep lineHashes1 lineHashes2 diff1 ei1 d2 diff2 mi minMatchLen ei2 of
              (mi', minMatchLen', ei2') \<Rightarrow>
                findMatchesLoop lineHashes1 lineHashes2 diff1 ei1 d2 diff2 mi' minMatchLen' ei2')
      else Some (mi, minMatchLen))"

declare findMatchesLoop.simps [code]

text \<open>The loop over the blocks in \<open>findMatches\<close>, by the indices \<open>ds\<close> still to visit.\<close>

fun findMatchesBlocks ::
  "diffInfo list \<Rightarrow> uint64 list \<Rightarrow> uint64 list \<Rightarrow> diffInfo \<Rightarrow> int \<Rightarrow> nat list \<Rightarrow> MatchInfo \<Rightarrow> int
     \<Rightarrow> MatchInfo option" where
  "findMatchesBlocks blockDiffs lineHashes1 lineHashes2 diff1 ei1 [] mi minMatchLen = Some mi"
| "findMatchesBlocks blockDiffs lineHashes1 lineHashes2 diff1 ei1 (d2 # ds) mi minMatchLen =
     (if bd_type (blockDiffs ! d2) \<noteq> DIFF_IN_2
      then findMatchesBlocks blockDiffs lineHashes1 lineHashes2 diff1 ei1 ds mi minMatchLen
      else (case findMatchesLoop lineHashes1 lineHashes2 diff1 ei1 d2 (blockDiffs ! d2) mi minMatchLen 0 of
              None \<Rightarrow> None
            | Some (mi', minMatchLen') \<Rightarrow>
                findMatchesBlocks blockDiffs lineHashes1 lineHashes2 diff1 ei1 ds mi' minMatchLen'))"

definition findMatches ::
  "diffInfo list \<Rightarrow> uint64 list \<Rightarrow> uint64 list \<Rightarrow> diffInfo \<Rightarrow> int \<Rightarrow> MatchInfo \<Rightarrow> MatchInfo option" where
  "findMatches blockDiffs lineHashes1 lineHashes2 diff1 ei1 mi =
     findMatchesBlocks blockDiffs lineHashes1 lineHashes2 diff1 ei1 [0..<length blockDiffs]
       (mi\<lparr>mi_sec := (mi_sec mi)\<lparr>len := 0\<rparr>, matchesIn1 := [], matchesIn2 := []\<rparr>) 1"

text \<open>
  The comparison loop over \<open>k\<close> in \<open>findBetterMatch\<close>: true when the two runs of
  \<open>lineHashes1\<close> agree on all \<open>n\<close> positions.
\<close>

definition sameRun :: "uint64 list \<Rightarrow> int \<Rightarrow> int \<Rightarrow> int \<Rightarrow> bool" where
  "sameRun lineHashes1 p q n =
     (\<forall>k \<in> set [0..<nat n]. lineHashes1 ! nat (p + int k) = lineHashes1 ! nat (q + int k))"

text \<open>
  One iteration of the loop over \<open>i\<close> in \<open>findBetterMatch\<close> for the block at index
  \<open>d\<close>: from \<open>ei\<close>, \<open>bestMatchDiff\<close> (an index), \<open>best_mi\<close> and \<open>i\<close> to their values
  after the increment of \<open>i\<close>.
\<close>

definition findBetterStep ::
  "diffInfo list \<Rightarrow> uint64 list \<Rightarrow> uint64 list \<Rightarrow> nat \<Rightarrow> int \<Rightarrow> nat \<Rightarrow> MatchInfo \<Rightarrow> int
     \<Rightarrow> (int \<times> nat \<times> MatchInfo \<times> int) option" where
  "findBetterStep blockDiffs lineHashes1 lineHashes2 d ei bestMatchDiff best_mi i =
     (let diff = blockDiffs ! d
      in if lineHashes1 ! nat (bd_off diff + i)
              \<noteq> lineHashes1 ! nat (bd_off (blockDiffs ! bestMatchDiff) + ei)
         then Some (ei, bestMatchDiff, best_mi, i + 1)
         else if blockMatched diff i \<noteq> 0
         then Some (ei, bestMatchDiff, best_mi, i + (blockMatched diff i - 1) + 1)
         else (case findMatches blockDiffs lineHashes1 lineHashes2 diff i newMatchInfo of
                 None \<Rightarrow> None
               | Some mi \<Rightarrow>
                   if len (mi_sec mi) = 0
                   then Some (ei, bestMatchDiff, best_mi, i + 1)
                   else if len (mi_sec best_mi) < len (mi_sec mi)
                   then Some (i, d, mi, off (mi_sec mi) + len (mi_sec mi) - 1 + 1)
                   else if len (mi_sec best_mi) = len (mi_sec mi)
                   then if sameRun lineHashes1
                             (bd_off (blockDiffs ! bestMatchDiff) + off (mi_sec best_mi))
                             (bd_off diff + off (mi_sec mi)) (len (mi_sec mi))
                        then Some (ei, bestMatchDiff,
                                   best_mi\<lparr>matchesIn1 := matchesIn1 best_mi @ [(d, off (mi_sec mi))]\<rparr>,
                                   off (mi_sec mi) + len (mi_sec mi) - 1 + 1)
                        else Some (ei, bestMatchDiff, best_mi, i + 1)
                   else Some (ei, bestMatchDiff, best_mi, i + 1)))"

partial_function (option) findBetterLoop ::
  "diffInfo list \<Rightarrow> uint64 list \<Rightarrow> uint64 list \<Rightarrow> nat \<Rightarrow> int \<Rightarrow> nat \<Rightarrow> MatchInfo \<Rightarrow> int
     \<Rightarrow> (int \<times> nat \<times> MatchInfo) option" where
  "findBetterLoop blockDiffs lineHashes1 lineHashes2 d ei bestMatchDiff best_mi i =
     (if bd_len (blockDiffs ! d) - i \<ge> len (mi_sec best_mi)
      then (case findBetterStep blockDiffs lineHashes1 lineHashes2 d ei bestMatchDiff best_mi i of
              None \<Rightarrow> None
            | Some (ei', bestMatchDiff', best_mi', i') \<Rightarrow>
                findBetterLoop blockDiffs lineHashes1 lineHashes2 d ei' bestMatchDiff' best_mi' i')
      else Some (ei, bestMatchDiff, best_mi))"

declare findBetterLoop.simps [code]

definition findBetterMatch ::
  "diffInfo list \<Rightarrow> uint64 list \<Rightarrow> uint64 list \<Rightarrow> nat \<Rightarrow> int \<Rightarrow> nat \<Rightarrow> MatchInfo
     \<Rightarrow> (int \<times> nat \<times> MatchInfo) option" where
  "findBetterMatch blockDiffs lineHashes1 lineHashes2 d ei bestMatchDiff best_mi =
     findBetterLoop blockDiffs lineHashes1 lineHashes2 d ei bestMatchDiff best_mi
       (if d = bestMatchDiff then off (mi_sec best_mi) + len (mi_sec best_mi) else 0)"

text \<open>The loop over the later blocks \<open>di2\<close> in \<open>findMoves\<close>.\<close>

fun findBetterLater ::
  "diffInfo list \<Rightarrow> uint64 list \<Rightarrow> uint64 list \<Rightarrow> nat list \<Rightarrow> int \<Rightarrow> nat \<Rightarrow> MatchInfo
     \<Rightarrow> (int \<times> nat \<times> MatchInfo) option" where
  "findBetterLater blockDiffs lineHashes1 lineHashes2 [] bmi bestMatchDiff best_mi =
     Some (bmi, bestMatchDiff, best_mi)"
| "findBetterLater blockDiffs lineHashes1 lineHashes2 (di2 # ds) bmi bestMatchDiff best_mi =
     (if bd_type (blockDiffs ! di2) = DIFF_IN_1
      then (case findBetterMatch blockDiffs lineHashes1 lineHashes2 di2 bmi bestMatchDiff best_mi of
              None \<Rightarrow> None
            | Some (bmi', bestMatchDiff', best_mi') \<Rightarrow>
                findBetterLater blockDiffs lineHashes1 lineHashes2 ds bmi' bestMatchDiff' best_mi')
      else findBetterLater blockDiffs lineHashes1 lineHashes2 ds bmi bestMatchDiff best_mi)"

text \<open>
  The commit of a run in \<open>findMoves\<close>: the moved flag, and one entry appended to the
  matches of the best block, of every alternate source and of every target.
\<close>

definition movedFlag :: "MatchInfo \<Rightarrow> bool" where
  "movedFlag best_mi =
     ((length (matchesIn1 best_mi) + 1 = length (matchesIn2 best_mi)) \<and>
      \<not> ((len (mi_sec best_mi) = 1) \<and> (length (matchesIn2 best_mi) > 1)))"

definition addMatch :: "nat \<Rightarrow> section_t \<times> bool \<Rightarrow> diffInfo list \<Rightarrow> diffInfo list" where
  "addMatch d m blockDiffs =
     blockDiffs[d := (blockDiffs ! d)
        \<lparr>bd_info := (bd_info (blockDiffs ! d))
           \<lparr>matches := matches (bd_info (blockDiffs ! d)) @ [m]\<rparr>\<rparr>]"

definition commitMatch :: "diffInfo list \<Rightarrow> nat \<Rightarrow> MatchInfo \<Rightarrow> diffInfo list" where
  "commitMatch blockDiffs bestMatchDiff best_mi =
     (let isMoved = movedFlag best_mi;
          bs1 = addMatch bestMatchDiff
                  (\<lparr>off = off (mi_sec best_mi), len = len (mi_sec best_mi)\<rparr>, isMoved) blockDiffs;
          bs2 = foldl (\<lambda>bs m. addMatch (fst m) (\<lparr>off = snd m, len = len (mi_sec best_mi)\<rparr>, isMoved) bs)
                  bs1 (matchesIn1 best_mi)
      in foldl (\<lambda>bs m. addMatch (fst m) (\<lparr>off = snd m, len = len (mi_sec best_mi)\<rparr>, isMoved) bs)
           bs2 (matchesIn2 best_mi))"

text \<open>
  One iteration of the loop over \<open>ei1\<close> in \<open>findMoves\<close> for the block at index
  \<open>di1\<close>: the blocks and \<open>ei1\<close> after the increment of \<open>ei1\<close>.
\<close>

definition findMovesStep ::
  "uint64 list \<Rightarrow> uint64 list \<Rightarrow> nat \<Rightarrow> diffInfo list \<Rightarrow> int \<Rightarrow> (diffInfo list \<times> int) option" where
  "findMovesStep lineHashes1 lineHashes2 di1 blockDiffs ei1 =
     (if blockMatched (blockDiffs ! di1) ei1 \<noteq> 0
      then Some (blockDiffs, ei1 + (blockMatched (blockDiffs ! di1) ei1 - 1) + 1)
      else if lineHashes1 ! nat (bd_off (blockDiffs ! di1) + ei1) = cHashSeed
      then Some (blockDiffs, ei1 + 1)
      else (case findMatches blockDiffs lineHashes1 lineHashes2 (blockDiffs ! di1) ei1 newMatchInfo of
              None \<Rightarrow> None
            | Some mi0 \<Rightarrow>
                if len (mi_sec mi0) = 0
                then Some (blockDiffs, ei1 + 1)
                else (case findBetterMatch blockDiffs lineHashes1 lineHashes2 di1 ei1 di1 mi0 of
                        None \<Rightarrow> None
                      | Some (bmi1, best1, mi1) \<Rightarrow>
                          (case findBetterLater blockDiffs lineHashes1 lineHashes2
                                  [Suc di1..<length blockDiffs] bmi1 best1 mi1 of
                             None \<Rightarrow> None
                           | Some (bmi, bestMatchDiff, best_mi) \<Rightarrow>
                               Some (commitMatch blockDiffs bestMatchDiff best_mi,
                                     (if bestMatchDiff = di1 \<and> bmi = ei1
                                      then off (mi_sec best_mi) + len (mi_sec best_mi) - 1 + 1
                                      else ei1 - 1 + 1))))))"

partial_function (option) findMovesLoop ::
  "uint64 list \<Rightarrow> uint64 list \<Rightarrow> nat \<Rightarrow> diffInfo list \<Rightarrow> int \<Rightarrow> diffInfo list option" where
  "findMovesLoop lineHashes1 lineHashes2 di1 blockDiffs ei1 =
     (if ei1 < bd_len (blockDiffs ! di1)
      then (case findMovesStep lineHashes1 lineHashes2 di1 blockDiffs ei1 of
              None \<Rightarrow> None
            | Some (blockDiffs', ei1') \<Rightarrow> findMovesLoop lineHashes1 lineHashes2 di1 blockDiffs' ei1')
      else Some blockDiffs)"

declare findMovesLoop.simps [code]

fun findMovesBlocks :: "uint64 list \<Rightarrow> uint64 list \<Rightarrow> nat list \<Rightarrow> diffInfo list \<Rightarrow> diffInfo list option" where
  "findMovesBlocks lineHashes1 lineHashes2 [] blockDiffs = Some blockDiffs"
| "findMovesBlocks lineHashes1 lineHashes2 (di1 # ds) blockDiffs =
     (if bd_type (blockDiffs ! di1) \<noteq> DIFF_IN_1
      then findMovesBlocks lineHashes1 lineHashes2 ds blockDiffs
      else (case findMovesLoop lineHashes1 lineHashes2 di1 blockDiffs 0 of
              None \<Rightarrow> None
            | Some blockDiffs' \<Rightarrow> findMovesBlocks lineHashes1 lineHashes2 ds blockDiffs'))"

definition findMoves :: "diffInfo list \<Rightarrow> uint64 list \<Rightarrow> uint64 list \<Rightarrow> diffInfo list option" where
  "findMoves blockDiffs lineHashes1 lineHashes2 =
     findMovesBlocks lineHashes1 lineHashes2 [0..<length blockDiffs] blockDiffs"

text \<open>
  The specification's commit of a run by the MoveFinder: a source block of kind IN_A,
  alternate sources in IN_A blocks and targets in IN_B blocks, each given by a block
  and an offset. Every participating block gets one entry per occurrence; the
  entries carry \<open>isMoved = true\<close> exactly when the number of alternate sources plus
  one is the number of targets, and it is not the case that the length is 1 and
  there are several targets.
\<close>

definition runEntries :: "nat \<Rightarrow> nat \<Rightarrow> MatchInfo \<Rightarrow> (section_t \<times> bool) list" where
  "runEntries j source run =
     (let isMoved = (length (matchesIn1 run) + 1 = length (matchesIn2 run)
                      \<and> \<not> (len (mi_sec run) = 1 \<and> 1 < length (matchesIn2 run)))
      in (if j = source then [(\<lparr>off = off (mi_sec run), len = len (mi_sec run)\<rparr>, isMoved)] else [])
         @ map (\<lambda>m. (\<lparr>off = snd m, len = len (mi_sec run)\<rparr>, isMoved))
             (filter (\<lambda>m. fst m = j) (matchesIn1 run))
         @ map (\<lambda>m. (\<lparr>off = snd m, len = len (mi_sec run)\<rparr>, isMoved))
             (filter (\<lambda>m. fst m = j) (matchesIn2 run)))"

definition appendMatches :: "diffInfo \<Rightarrow> (section_t \<times> bool) list \<Rightarrow> diffInfo" where
  "appendMatches bd new = bd\<lparr>bd_info := (bd_info bd)\<lparr>matches := matches (bd_info bd) @ new\<rparr>\<rparr>"

definition runOfBlocks :: "diffInfo list \<Rightarrow> nat \<Rightarrow> MatchInfo \<Rightarrow> bool" where
  "runOfBlocks bs source run =
     (source < length bs \<and> bd_type (bs ! source) = DIFF_IN_1 \<and>
      (\<forall>m \<in> set (matchesIn1 run). fst m < length bs \<and> bd_type (bs ! fst m) = DIFF_IN_1) \<and>
      (\<forall>m \<in> set (matchesIn2 run). fst m < length bs \<and> bd_type (bs ! fst m) = DIFF_IN_2))"

text \<open>
  The run that one iteration of the loop over \<open>ei1\<close> in \<open>findMoves\<close> records before it
  commits: \<open>bestMatchDiff\<close> and \<open>best_mi\<close> as the searches \<open>findMatches\<close> and
  \<open>findBetterMatch\<close> leave them, \<open>best_mi\<close> with its alternates \<open>matchesIn1\<close> and its
  targets \<open>matchesIn2\<close>; \<open>None\<close> when the iteration commits nothing.
\<close>

definition recordedRun ::
  "uint64 list \<Rightarrow> uint64 list \<Rightarrow> diffInfo list \<Rightarrow> nat \<Rightarrow> int \<Rightarrow> (nat \<times> MatchInfo) option" where
  "recordedRun lineHashes1 lineHashes2 blockDiffs di1 ei1 =
     (if blockMatched (blockDiffs ! di1) ei1 \<noteq> 0 then None
      else if lineHashes1 ! nat (bd_off (blockDiffs ! di1) + ei1) = cHashSeed then None
      else (case findMatches blockDiffs lineHashes1 lineHashes2 (blockDiffs ! di1) ei1 newMatchInfo of
              None \<Rightarrow> None
            | Some mi0 \<Rightarrow>
                if len (mi_sec mi0) = 0 then None
                else (case findBetterMatch blockDiffs lineHashes1 lineHashes2 di1 ei1 di1 mi0 of
                        None \<Rightarrow> None
                      | Some (bmi1, best1, mi1) \<Rightarrow>
                          (case findBetterLater blockDiffs lineHashes1 lineHashes2
                                  [Suc di1..<length blockDiffs] bmi1 best1 mi1 of
                             None \<Rightarrow> None
                           | Some (bmi, bestMatchDiff, best_mi) \<Rightarrow> Some (bestMatchDiff, best_mi)))))"

text \<open>
  A commit of the MoveFinder: at some line \<open>ei1\<close> of some IN_A block \<open>di1\<close> the
  searches record a run, and every block gets the entries of exactly that run, with
  the flag the specification gives for its numbers of alternates and targets.
\<close>

definition committedRunAt :: "uint64 list \<Rightarrow> uint64 list \<Rightarrow> diffInfo list \<Rightarrow> diffInfo list \<Rightarrow> bool" where
  "committedRunAt lineHashes1 lineHashes2 bs bs' =
     (\<exists>di1 ei1 source run.
        di1 < length bs \<and> bd_type (bs ! di1) = DIFF_IN_1 \<and> ei1 < bd_len (bs ! di1) \<and>
        recordedRun lineHashes1 lineHashes2 bs di1 ei1 = Some (source, run) \<and>
        runOfBlocks bs source run \<and> length bs' = length bs \<and>
        (\<forall>j < length bs. bs' ! j = appendMatches (bs ! j) (runEntries j source run)))"

text \<open>
  Blocks for the line hashes \<open>[1, 2, 9, 1, 2, 8]\<close> and \<open>[9, 1, 2, 8, 1, 2]\<close>: the two
  lines \<open>1, 2\<close> occur in two IN_A blocks and in two IN_B blocks.
\<close>

definition exMoveBlocks :: "diffInfo list" where
  "exMoveBlocks =
     [blockOfSpan \<lparr>sp_type = DIFF_IN_1, sp_off = 0, sp_len = 2\<rparr>,
      blockOfSpan \<lparr>sp_type = DIFF_MATCH, sp_off = 2, sp_len = 1\<rparr>,
      blockOfSpan \<lparr>sp_type = DIFF_IN_1, sp_off = 3, sp_len = 2\<rparr>,
      blockOfSpan \<lparr>sp_type = DIFF_IN_2, sp_off = 1, sp_len = 2\<rparr>,
      blockOfSpan \<lparr>sp_type = DIFF_MATCH, sp_off = 5, sp_len = 1\<rparr>,
      blockOfSpan \<lparr>sp_type = DIFF_IN_2, sp_off = 4, sp_len = 2\<rparr>]"

subsection \<open>Auxiliary predicates of the proofs\<close>

definition sameShape :: "diffInfo list \<Rightarrow> diffInfo list \<Rightarrow> bool" where
  "sameShape bs bs' = (length bs' = length bs \<and> (\<forall>j < length bs. bd_type (bs' ! j) = bd_type (bs ! j)))"

definition targetsIn2 :: "diffInfo list \<Rightarrow> MatchInfo \<Rightarrow> bool" where
  "targetsIn2 bs mi =
     (\<forall>m \<in> set (matchesIn2 mi). fst m < length bs \<and> bd_type (bs ! fst m) = DIFF_IN_2)"

definition partialRun :: "byte list \<Rightarrow> int \<Rightarrow> Word \<Rightarrow> bool" where
  "partialRun pre lineNum w =
     (pre \<noteq> [] \<and> w_length w = int (length pre) \<and> w_line w = lineNum \<and>
      (\<forall>b \<in> set pre. getCharType b = w_type w) \<and> w_hash w = foldl Hash cHashSeed pre)"

subsection \<open>BlockPairComparer\<close>

lemma matchedSection_pos: "fst (matchedSection ms n) = 0 \<or> 1 \<le> fst (matchedSection ms n)"
  by (induction ms) auto

definition blockMoved :: "diffInfo \<Rightarrow> int \<Rightarrow> bool" where
  "blockMoved bd n = snd (matchedSection (matches (bd_info bd)) n)"

record conv_key =
  ck_convergence :: int
  ck_line1 :: int
  ck_line2 :: int

text \<open>\<open>operator<\<close> of \<open>conv_key\<close>.\<close>

definition conv_less :: "conv_key \<Rightarrow> conv_key \<Rightarrow> bool" where
  "conv_less k rhs =
     ((ck_convergence k > ck_convergence rhs) \<or>
      ((ck_convergence k = ck_convergence rhs) \<and>
       ((ck_line1 k < ck_line1 rhs) \<or> ((ck_line1 k = ck_line1 rhs) \<and> (ck_line2 k < ck_line2 rhs)))))"

text \<open>
  \<open>std::set<conv_key>\<close> as the list of its elements in iteration order; \<open>emplace\<close>
  puts a key at its place and leaves the set alone when it holds an equivalent key.
\<close>

fun set_emplace :: "conv_key \<Rightarrow> conv_key list \<Rightarrow> conv_key list" where
  "set_emplace k [] = [k]"
| "set_emplace k (x # xs) =
     (if conv_less k x then k # x # xs
      else if conv_less x k then x # set_emplace k xs
      else x # xs)"

definition wordsLen :: "Word list \<Rightarrow> int" where
  "wordsLen ws = foldl (\<lambda>n word. n + w_length word) 0 ws"

text \<open>
  The sums over the MATCH spans of a word diff: the number of matched words and the
  bytes of the matched words of \<open>pLine1\<close>.
\<close>

definition convSums :: "Word list \<Rightarrow> diff_span list \<Rightarrow> int \<times> int" where
  "convSums pLine1 linesDiff =
     foldl (\<lambda>acc ld.
              if sp_type ld = DIFF_MATCH
              then (fst acc + sp_len ld,
                    foldl (\<lambda>n i. n + w_length (pLine1 ! nat (sp_off ld + i))) (snd acc)
                      (map int [0..<nat (sp_len ld)]))
              else acc)
       (0, 0) linesDiff"

text \<open>
  \<open>pLine1\<close> and \<open>pLine2\<close> after the swap that puts the longer word vector first.
\<close>

definition pLine1Of :: "Word list list \<Rightarrow> Word list list \<Rightarrow> int \<Rightarrow> int \<Rightarrow> Word list" where
  "pLine1Of chunk1 chunk2 line1 line2 =
     (if length (chunk1 ! nat line1) < length (chunk2 ! nat line2)
      then chunk2 ! nat line2 else chunk1 ! nat line1)"

definition pLine2Of :: "Word list list \<Rightarrow> Word list list \<Rightarrow> int \<Rightarrow> int \<Rightarrow> Word list" where
  "pLine2Of chunk1 chunk2 line1 line2 =
     (if length (chunk1 ! nat line1) < length (chunk2 ! nat line2)
      then chunk1 ! nat line1 else chunk2 ! nat line2)"

text \<open>
  The convergence of a candidate pair from its word diff: the better of the
  convergence by words count and the convergence by length, where \<open>line1Len\<close> is the
  value that variable has at this point.
\<close>

definition pairConvergence :: "Word list \<Rightarrow> diff_span list \<Rightarrow> int \<Rightarrow> int" where
  "pairConvergence pLine1 linesDiff line1Len =
     (let sums = convSums pLine1 linesDiff;
          linesConvergence = cdiv (fst sums * 100) (int (length pLine1));
          linesLenConvergence = cdiv (snd sums * 100) line1Len
      in if linesConvergence < linesLenConvergence then linesLenConvergence else linesConvergence)"

text \<open>
  One iteration of the loop over \<open>line2\<close> in \<open>compareBlocks\<close>: from \<open>line2\<close>,
  \<open>line1Len\<close> and the set of candidates to their values after the increment of
  \<open>line2\<close>. \<open>line1Len\<close> is declared outside this loop and keeps what an iteration
  assigns to it.
\<close>

definition line2Step ::
  "(Word list \<Rightarrow> Word list \<Rightarrow> fault + diff_span list) \<Rightarrow> Word list list \<Rightarrow> Word list list
     \<Rightarrow> diffInfo \<Rightarrow> int \<Rightarrow> int \<Rightarrow> int \<Rightarrow> conv_key list \<Rightarrow> fault + int \<times> int \<times> conv_key list" where
  "line2Step diffWords chunk1 chunk2 blockDiff2 line1 line2 line1Len orderedLinesConvergence =
     (if chunk2 ! nat line2 = [] then Inr (line2 + 1, line1Len, orderedLinesConvergence)
      else if blockMatched blockDiff2 line2 \<noteq> 0 \<and> blockMoved blockDiff2 line2
      then Inr (line2 + (blockMatched blockDiff2 line2 - 1) + 1, line1Len, orderedLinesConvergence)
      else (let pLine1 = pLine1Of chunk1 chunk2 line1 line2;
                pLine2 = pLine2Of chunk1 chunk2 line1 line2
            in if length pLine1 > 2 * length pLine2
               then Inr (line2 + 1, line1Len, orderedLinesConvergence)
               else (case diffWords pLine1 pLine2 of
                       Inl e \<Rightarrow> Inl e
                     | Inr linesDiff \<Rightarrow>
                         (let line2Len = wordsLen (chunk2 ! nat line2);
                              line1Len' = (if line1Len < line2Len then line2Len else line1Len);
                              linesConvergence' = pairConvergence pLine1 linesDiff line1Len'
                          in Inr (line2 + 1, line1Len',
                                  (if linesConvergence' \<ge> 50
                                   then set_emplace
                                          \<lparr>ck_convergence = linesConvergence', ck_line1 = line1,
                                           ck_line2 = line2\<rparr> orderedLinesConvergence
                                   else orderedLinesConvergence))))))"

lemma line2Step_advances:
  assumes "line2Step diffWords chunk1 chunk2 blockDiff2 line1 line2 line1Len oc = Inr st"
  shows "line2 < fst st"
proof (cases "chunk2 ! nat line2 = []")
  case True
  with assms show ?thesis by (auto simp: line2Step_def)
next
  case ne: False
  show ?thesis
  proof (cases "blockMatched blockDiff2 line2 \<noteq> 0 \<and> blockMoved blockDiff2 line2")
    case True
    then have "1 \<le> blockMatched blockDiff2 line2"
      using matchedSection_pos [of "matches (bd_info blockDiff2)" line2] by (simp add: blockMatched_def)
    with assms ne True show ?thesis by (auto simp: line2Step_def)
  next
    case nm: False
    define pLine1 where "pLine1 = pLine1Of chunk1 chunk2 line1 line2"
    define pLine2 where "pLine2 = pLine2Of chunk1 chunk2 line1 line2"
    show ?thesis
    proof (cases "length pLine1 > 2 * length pLine2")
      case True
      with assms ne nm show ?thesis
        unfolding line2Step_def Let_def pLine1_def [symmetric] pLine2_def [symmetric] by auto
    next
      case False
      show ?thesis
      proof (cases "diffWords pLine1 pLine2")
        case (Inl e)
        with assms ne nm False show ?thesis
          unfolding line2Step_def Let_def pLine1_def [symmetric] pLine2_def [symmetric] by simp
      next
        case (Inr linesDiff)
        with assms ne nm False show ?thesis
          unfolding line2Step_def Let_def pLine1_def [symmetric] pLine2_def [symmetric] by auto
      qed
    qed
  qed
qed

function line2Loop ::
  "(Word list \<Rightarrow> Word list \<Rightarrow> fault + diff_span list) \<Rightarrow> Word list list \<Rightarrow> Word list list
     \<Rightarrow> diffInfo \<Rightarrow> int \<Rightarrow> int \<Rightarrow> int \<Rightarrow> conv_key list \<Rightarrow> fault + conv_key list" where
  "line2Loop diffWords chunk1 chunk2 blockDiff2 line1 line2 line1Len orderedLinesConvergence =
     (if line2 < int (length chunk2)
      then (case line2Step diffWords chunk1 chunk2 blockDiff2 line1 line2 line1Len
                   orderedLinesConvergence of
              Inl e \<Rightarrow> Inl e
            | Inr st \<Rightarrow>
                line2Loop diffWords chunk1 chunk2 blockDiff2 line1 (fst st) (fst (snd st)) (snd (snd st)))
      else Inr orderedLinesConvergence)"
  by pat_completeness auto
termination
  by (relation "measure (\<lambda>(dw, c1, c2, b2, l1, l2, n, oc). nat (int (length c2) - l2))")
     (auto dest: line2Step_advances)

declare line2Loop.simps [simp del]

text \<open>One iteration of the loop over \<open>line1\<close>, and the loop.\<close>

definition line1Step ::
  "(Word list \<Rightarrow> Word list \<Rightarrow> fault + diff_span list) \<Rightarrow> Word list list \<Rightarrow> Word list list
     \<Rightarrow> diffInfo \<Rightarrow> diffInfo \<Rightarrow> int \<Rightarrow> conv_key list \<Rightarrow> fault + int \<times> conv_key list" where
  "line1Step diffWords chunk1 chunk2 blockDiff1 blockDiff2 line1 orderedLinesConvergence =
     (if chunk1 ! nat line1 = [] then Inr (line1 + 1, orderedLinesConvergence)
      else if blockMatched blockDiff1 line1 \<noteq> 0 \<and> blockMoved blockDiff1 line1
      then Inr (line1 + (blockMatched blockDiff1 line1 - 1) + 1, orderedLinesConvergence)
      else (case line2Loop diffWords chunk1 chunk2 blockDiff2 line1 0 (wordsLen (chunk1 ! nat line1))
                   orderedLinesConvergence of
              Inl e \<Rightarrow> Inl e
            | Inr oc \<Rightarrow> Inr (line1 + 1, oc)))"

lemma line1Step_advances:
  assumes "line1Step diffWords chunk1 chunk2 blockDiff1 blockDiff2 line1 oc = Inr st"
  shows "line1 < fst st"
proof (cases "chunk1 ! nat line1 = []")
  case True
  with assms show ?thesis by (auto simp: line1Step_def)
next
  case ne: False
  show ?thesis
  proof (cases "blockMatched blockDiff1 line1 \<noteq> 0 \<and> blockMoved blockDiff1 line1")
    case True
    then have "1 \<le> blockMatched blockDiff1 line1"
      using matchedSection_pos [of "matches (bd_info blockDiff1)" line1] by (simp add: blockMatched_def)
    with assms ne True show ?thesis by (auto simp: line1Step_def)
  next
    case False
    with assms ne show ?thesis
      by (cases "line2Loop diffWords chunk1 chunk2 blockDiff2 line1 0 (wordsLen (chunk1 ! nat line1)) oc")
         (auto simp: line1Step_def)
  qed
qed

function line1Loop ::
  "(Word list \<Rightarrow> Word list \<Rightarrow> fault + diff_span list) \<Rightarrow> Word list list \<Rightarrow> Word list list
     \<Rightarrow> diffInfo \<Rightarrow> diffInfo \<Rightarrow> int \<Rightarrow> conv_key list \<Rightarrow> fault + conv_key list" where
  "line1Loop diffWords chunk1 chunk2 blockDiff1 blockDiff2 line1 orderedLinesConvergence =
     (if line1 < int (length chunk1)
      then (case line1Step diffWords chunk1 chunk2 blockDiff1 blockDiff2 line1 orderedLinesConvergence of
              Inl e \<Rightarrow> Inl e
            | Inr st \<Rightarrow> line1Loop diffWords chunk1 chunk2 blockDiff1 blockDiff2 (fst st) (snd st))
      else Inr orderedLinesConvergence)"
  by pat_completeness auto
termination
  by (relation "measure (\<lambda>(dw, c1, c2, b1, b2, l1, oc). nat (int (length c1) - l1))")
     (auto dest: line1Step_advances)

declare line1Loop.simps [simp del]

text \<open>
  \<open>std::map<int, std::pair<int, int>>\<close> as the list of its entries (key, convergence,
  line2) in ascending key order; \<open>emplace\<close> leaves an existing key alone.
\<close>

fun map_emplace :: "int \<Rightarrow> int \<times> int \<Rightarrow> (int \<times> int \<times> int) list \<Rightarrow> (int \<times> int \<times> int) list" where
  "map_emplace k v [] = [(k, v)]"
| "map_emplace k v (e # es) =
     (if k < fst e then (k, v) # e # es
      else if fst e < k then e # map_emplace k v es
      else e # es)"

record mapping_state =
  lineMappings :: "(int \<times> int \<times> int) list"
  mappedLines1 :: "bool list"
  mappedLines2 :: "bool list"
  mappedLinesCount1 :: int
  mappedLinesCount2 :: int

text \<open>
  The loop over \<open>ocItr\<close> from one start position to the end of the set, or to the
  \<open>break\<close> when one of the two counters reaches its line count.
\<close>

fun mappingLoop :: "int \<Rightarrow> int \<Rightarrow> conv_key list \<Rightarrow> mapping_state \<Rightarrow> mapping_state" where
  "mappingLoop linesCount1 linesCount2 [] st = st"
| "mappingLoop linesCount1 linesCount2 (oc # rest) st =
     (if \<not> mappedLines1 st ! nat (ck_line1 oc) \<and> \<not> mappedLines2 st ! nat (ck_line2 oc)
      then (let st1 = st\<lparr>lineMappings := map_emplace (ck_line1 oc) (ck_convergence oc, ck_line2 oc)
                                             (lineMappings st),
                         mappedLinesCount1 := mappedLinesCount1 st + 1\<rparr>
            in if mappedLinesCount1 st1 = linesCount1 then st1
               else (let st2 = st1\<lparr>mappedLinesCount2 := mappedLinesCount2 st1 + 1\<rparr>
                     in if mappedLinesCount2 st2 = linesCount2 then st2
                        else mappingLoop linesCount1 linesCount2 rest
                               (st2\<lparr>mappedLines1 := (mappedLines1 st2)[nat (ck_line1 oc) := True],
                                    mappedLines2 := (mappedLines2 st2)[nat (ck_line2 oc) := True]\<rparr>)))
      else mappingLoop linesCount1 linesCount2 rest st)"

definition mappingFrom :: "int \<Rightarrow> int \<Rightarrow> conv_key list \<Rightarrow> (int \<times> int \<times> int) list" where
  "mappingFrom linesCount1 linesCount2 ocs =
     lineMappings (mappingLoop linesCount1 linesCount2 ocs
        \<lparr>lineMappings = [], mappedLines1 = replicate (nat linesCount1) False,
         mappedLines2 = replicate (nat linesCount2) False,
         mappedLinesCount1 = 0, mappedLinesCount2 = 0\<rparr>)"

text \<open>
  \<open>currentBlockConvergence\<close>: the sum over the mapping, in ascending \<open>line1\<close>, of the
  scores of the entries whose \<open>line2\<close> exceeds the last \<open>line2\<close> counted.
\<close>

definition blockConvergence :: "(int \<times> int \<times> int) list \<Rightarrow> int" where
  "blockConvergence lms =
     fst (foldl (\<lambda>acc lm. if snd (snd lm) > snd acc then (fst acc + fst (snd lm), snd (snd lm)) else acc)
            (0, - 1) lms)"

text \<open>The loop over the start positions \<open>startItr\<close>.\<close>

fun startLoop :: "int \<Rightarrow> int \<Rightarrow> conv_key list \<Rightarrow> int \<times> (int \<times> int \<times> int) list
                    \<Rightarrow> int \<times> (int \<times> int \<times> int) list" where
  "startLoop linesCount1 linesCount2 [] best = best"
| "startLoop linesCount1 linesCount2 (oc # rest) best =
     (let lms = mappingFrom linesCount1 linesCount2 (oc # rest);
          currentBlockConvergence = blockConvergence lms
      in startLoop linesCount1 linesCount2 rest
           (if fst best < currentBlockConvergence then (currentBlockConvergence, lms) else best))"

definition bestLineMappings :: "int \<Rightarrow> int \<Rightarrow> conv_key list \<Rightarrow> (int \<times> int \<times> int) list" where
  "bestLineMappings linesCount1 linesCount2 orderedLinesConvergence =
     snd (startLoop linesCount1 linesCount2 orderedLinesConvergence (0, []))"

subsection \<open>Line pairing inside a block pair\<close>

definition addChangedLine :: "int \<Rightarrow> section_t list \<Rightarrow> diffInfo \<Rightarrow> diffInfo" where
  "addChangedLine n changes bd =
     bd\<lparr>bd_info := (bd_info bd)
        \<lparr>changedLines := changedLines (bd_info bd) @ [\<lparr>dl_line = n, dl_changes = changes\<rparr>]\<rparr>\<rparr>"

text \<open>The byte ranges that the spans of kind \<open>t\<close> of a word diff cover in the words \<open>pLine\<close>.\<close>

definition spanChanges :: "diff_type \<Rightarrow> Word list \<Rightarrow> diff_span list \<Rightarrow> section_t list" where
  "spanChanges t pLine linesDiff =
     map (\<lambda>ld. \<lparr>off = w_pos (pLine ! nat (sp_off ld)),
               len = w_pos (pLine ! nat (sp_off ld + sp_len ld - 1)) - w_pos (pLine ! nat (sp_off ld))
                     + w_length (pLine ! nat (sp_off ld + sp_len ld - 1))\<rparr>)
       (filter (\<lambda>ld. sp_type ld = t) linesDiff)"

text \<open>
  The loop of \<open>compareLines\<close> over the mapping: the state is the two blocks and
  \<open>lastLine2\<close>.
\<close>

fun compareLinesLoop ::
  "(Word list \<Rightarrow> Word list \<Rightarrow> fault + diff_span list) \<Rightarrow> Word list list \<Rightarrow> Word list list
     \<Rightarrow> (int \<times> int \<times> int) list \<Rightarrow> diffInfo \<Rightarrow> diffInfo \<Rightarrow> int \<Rightarrow> fault + diffInfo \<times> diffInfo" where
  "compareLinesLoop diffWords chunk1 chunk2 [] blockDiff1 blockDiff2 lastLine2 =
     Inr (blockDiff1, blockDiff2)"
| "compareLinesLoop diffWords chunk1 chunk2 (lm # lms) blockDiff1 blockDiff2 lastLine2 =
     (if snd (snd lm) \<le> lastLine2
      then compareLinesLoop diffWords chunk1 chunk2 lms blockDiff1 blockDiff2 lastLine2
      else (let line1 = fst lm;
                line2 = snd (snd lm);
                swap = length (chunk1 ! nat line1) < length (chunk2 ! nat line2);
                pLine1 = pLine1Of chunk1 chunk2 line1 line2;
                pLine2 = pLine2Of chunk1 chunk2 line1 line2
            in case diffWords pLine1 pLine2 of
                 Inl e \<Rightarrow> Inl e
               | Inr linesDiff \<Rightarrow>
                   if length linesDiff = 1 \<and> sp_type (linesDiff ! 0) = DIFF_MATCH
                   then compareLinesLoop diffWords chunk1 chunk2 lms blockDiff1 blockDiff2 line2
                   else if swap
                   then compareLinesLoop diffWords chunk1 chunk2 lms
                          (addChangedLine line1 (spanChanges DIFF_IN_2 pLine2 linesDiff) blockDiff1)
                          (addChangedLine line2 (spanChanges DIFF_IN_1 pLine1 linesDiff) blockDiff2)
                          line2
                   else compareLinesLoop diffWords chunk1 chunk2 lms
                          (addChangedLine line1 (spanChanges DIFF_IN_1 pLine1 linesDiff) blockDiff1)
                          (addChangedLine line2 (spanChanges DIFF_IN_2 pLine2 linesDiff) blockDiff2)
                          line2))"

definition compareLines ::
  "(Word list \<Rightarrow> Word list \<Rightarrow> fault + diff_span list) \<Rightarrow> diffInfo \<Rightarrow> diffInfo
     \<Rightarrow> Word list list \<Rightarrow> Word list list \<Rightarrow> (int \<times> int \<times> int) list
     \<Rightarrow> fault + diffInfo \<times> diffInfo" where
  "compareLines diffWords blockDiff1 blockDiff2 chunk1 chunk2 lms =
     compareLinesLoop diffWords chunk1 chunk2 lms blockDiff1 blockDiff2 (- 1)"

text \<open>\<open>compareBlocks\<close> after the two calls of \<open>getWords\<close>.\<close>

definition compareChunks ::
  "(Word list \<Rightarrow> Word list \<Rightarrow> fault + diff_span list) \<Rightarrow> Word list list \<Rightarrow> Word list list
     \<Rightarrow> diffInfo \<Rightarrow> diffInfo \<Rightarrow> fault + diffInfo \<times> diffInfo" where
  "compareChunks diffWords chunk1 chunk2 blockDiff1 blockDiff2 =
     (let linesCount1 = int (length chunk1);
          linesCount2 = int (length chunk2)
      in case line1Loop diffWords chunk1 chunk2 blockDiff1 blockDiff2 0 [] of
           Inl e \<Rightarrow> Inl e
         | Inr orderedLinesConvergence \<Rightarrow>
             (let best = bestLineMappings linesCount1 linesCount2 orderedLinesConvergence
              in if best \<noteq> [] then compareLines diffWords blockDiff1 blockDiff2 chunk1 chunk2 best
                 else Inr (blockDiff1, blockDiff2)))"

definition compareBlocks ::
  "(Word list \<Rightarrow> Word list \<Rightarrow> fault + diff_span list) \<Rightarrow> sci_view \<Rightarrow> sci_view \<Rightarrow> UserSettings
     \<Rightarrow> diffInfo \<Rightarrow> diffInfo \<Rightarrow> fault + diffInfo \<times> diffInfo" where
  "compareBlocks diffWords view1 view2 settings blockDiff1 blockDiff2 =
     (case getWords (bd_off blockDiff1) (bd_len blockDiff1) view1 settings of
        Inl e \<Rightarrow> Inl e
      | Inr chunk1 \<Rightarrow>
          (case getWords (bd_off blockDiff2) (bd_len blockDiff2) view2 settings of
             Inl e \<Rightarrow> Inl e
           | Inr chunk2 \<Rightarrow> compareChunks diffWords chunk1 chunk2 blockDiff1 blockDiff2))"

subsection \<open>A DiffCalc for concrete inputs\<close>

text \<open>
  Modelled from the spec: \<open>DiffCalc\<close> (diff.h) is not part of the sources at hand. The
  specification describes its result: a longest common subsequence as spans MATCH,
  IN_A and IN_B without empty spans and without two consecutive spans of one kind,
  deletions before insertions at a replacement, MATCH and IN_A offsets in the first
  sequence and IN_B offsets in the second. The theorems below hold for every
  \<open>DiffCalc\<close>; this one serves to run the engine on concrete documents.
\<close>

fun editScript :: "uint64 list \<Rightarrow> uint64 list \<Rightarrow> diff_type list" where
  "editScript [] ys = replicate (length ys) DIFF_IN_2"
| "editScript (x # xs) [] = replicate (length (x # xs)) DIFF_IN_1"
| "editScript (x # xs) (y # ys) =
     (if x = y then DIFF_MATCH # editScript xs ys
      else (let a = DIFF_IN_1 # editScript xs (y # ys);
                b = DIFF_IN_2 # editScript (x # xs) ys
            in if length (filter (\<lambda>t. t = DIFF_MATCH) a) \<ge> length (filter (\<lambda>t. t = DIFF_MATCH) b)
               then a else b))"

function groupSpans :: "diff_type list \<Rightarrow> int \<Rightarrow> int \<Rightarrow> diff_span list" where
  "groupSpans [] a b = []"
| "groupSpans (t # ts) a b =
     (let n = int (length (takeWhile (\<lambda>x. x = t) ts)) + 1
      in \<lparr>sp_type = t, sp_off = (if t = DIFF_IN_2 then b else a), sp_len = n\<rparr>
         # groupSpans (dropWhile (\<lambda>x. x = t) ts)
             (if t = DIFF_IN_2 then a else a + n) (if t = DIFF_IN_1 then b else b + n))"
  by pat_completeness auto
termination
  by (relation "measure (\<lambda>(ts, a, b). length ts)") (auto simp: length_dropWhile_le less_Suc_eq_le)

definition DiffCalcSpec :: "uint64 list \<Rightarrow> uint64 list \<Rightarrow> fault + diff_span list" where
  "DiffCalcSpec xs ys = Inr (groupSpans (editScript xs ys) 0 0)"

definition diffWordsSpec :: "Word list \<Rightarrow> Word list \<Rightarrow> fault + diff_span list" where
  "diffWordsSpec pLine1 pLine2 = DiffCalcSpec (map w_hash pLine1) (map w_hash pLine2)"

subsection \<open>Reference notions for the mapping search\<close>












text \<open>
  The specification's convergence of a candidate pair of lines with the word diff
  \<open>linesDiff\<close> of the longer against the shorter word vector: the maximum of the
  matched word count times 100 divided by the word count of the longer line, and of
  the matched byte count times 100 divided by the byte count of the longer line
  (integer division).
\<close>

definition specConvergence :: "Word list \<Rightarrow> Word list \<Rightarrow> diff_span list \<Rightarrow> int" where
  "specConvergence lineA lineB linesDiff =
     (let longer = (if length lineA < length lineB then lineB else lineA);
          sums = convSums longer linesDiff
      in max (fst sums * 100 div int (length longer))
             (snd sums * 100 div max (wordsLen lineA) (wordsLen lineB)))"

text \<open>
  The word vectors of a block with the line \<open>abcd+x\<close> and of a block with the
  lines \<open>qqqqqqq*z\<close> and \<open>abcd-y\<close>.
\<close>

definition exStale1 :: "Word list list" where
  "exStale1 = [lineWords (settingsOf False False False) 0 [0x61, 0x62, 0x63, 0x64, 0x2B, 0x78, 0]]"

definition exStale2 :: "Word list list" where
  "exStale2 = [lineWords (settingsOf False False False) 0
                 [0x71, 0x71, 0x71, 0x71, 0x71, 0x71, 0x71, 0x2A, 0x7A, 0],
               lineWords (settingsOf False False False) 1 [0x61, 0x62, 0x63, 0x64, 0x2D, 0x79, 0]]"

subsection \<open>Marking and alignment\<close>

text \<open>
  One iteration of the loop of \<open>markSection\<close>: from \<open>i\<close>, \<open>line\<close> and the view to their
  values after the increments of the loop header.
\<close>

definition markSectionStep ::
  "MarkerMasks \<Rightarrow> diffInfo \<Rightarrow> DocCmpInfo \<Rightarrow> int \<Rightarrow> int \<Rightarrow> sci_view \<Rightarrow> int \<times> int \<times> sci_view" where
  "markSectionStep mm bd doc i n v =
     (let m = matchedSection (matches (bd_info bd)) i;
          isMoved = snd m;
          matchedLen = (if fst m > len (d_section doc) then len (d_section doc) else fst m)
      in if matchedLen = 0
         then (i + 1, n + 1, SCI_MARKERADDSET n (d_blockDiffMask doc) v)
         else if \<not> isMoved
         then (let mark = (if d_blockDiffMask doc = MARKER_MASK_ADDED mm
                           then MARKER_MASK_ADDED_LOCAL mm else MARKER_MASK_REMOVED_LOCAL mm)
               in (i + (matchedLen - 1) + 1, n + max 0 matchedLen - 1 + 1,
                   foldl (\<lambda>v j. SCI_MARKERADDSET (n + j) mark v) v (map int [0..<nat matchedLen])))
         else if matchedLen = 1
         then (i + 1, n + 1, SCI_MARKERADDSET n (MARKER_MASK_MOVED_LINE mm) v)
         else (let v1 = SCI_MARKERADDSET n (MARKER_MASK_MOVED_BEGIN mm) v;
                   n1 = n + 1;
                   matchedLen1 = matchedLen - 1;
                   v2 = foldl (\<lambda>v j. SCI_MARKERADDSET (n1 + j) (MARKER_MASK_MOVED_MID mm) v) v1
                          (map int [0..<nat (matchedLen1 - 1)]);
                   n2 = n1 + max 0 (matchedLen1 - 1)
               in (i + matchedLen1 + 1, n2 + 1, SCI_MARKERADDSET n2 (MARKER_MASK_MOVED_END mm) v2)))"

partial_function (option) markSectionLoop ::
  "MarkerMasks \<Rightarrow> diffInfo \<Rightarrow> DocCmpInfo \<Rightarrow> int \<Rightarrow> int \<Rightarrow> int \<Rightarrow> sci_view \<Rightarrow> sci_view option" where
  "markSectionLoop mm bd doc endOff i n v =
     (if i < endOff
      then (case markSectionStep mm bd doc i n v of
              (i', n', v') \<Rightarrow> markSectionLoop mm bd doc endOff i' n' v')
      else Some v)"

declare markSectionLoop.simps [code]

definition markSection :: "MarkerMasks \<Rightarrow> diffInfo \<Rightarrow> DocCmpInfo \<Rightarrow> world \<Rightarrow> world option" where
  "markSection mm bd doc w =
     (case markSectionLoop mm bd doc (off (d_section doc) + len (d_section doc)) (off (d_section doc))
             (bd_off bd + off (d_section doc)) (getView w (d_view doc)) of
        None \<Rightarrow> None
      | Some v \<Rightarrow> Some (setView (d_view doc) v w))"

definition markChanges :: "int \<Rightarrow> diffLine \<Rightarrow> int \<Rightarrow> sci_view \<Rightarrow> sci_view" where
  "markChanges n cl msk v =
     SCI_MARKERADDSET n msk
       (foldl (\<lambda>v change. markTextAsChanged (SCI_POSITIONFROMLINE v n + off change) (len change) v)
          v (dl_changes cl))"

definition markLineDiffs ::
  "MarkerMasks \<Rightarrow> int \<Rightarrow> int \<Rightarrow> diffInfo \<Rightarrow> diffInfo \<Rightarrow> nat \<Rightarrow> world \<Rightarrow> world" where
  "markLineDiffs mm view1 view2 bd matchBd lineIdx w =
     (let cl1 = changedLines (bd_info bd) ! lineIdx;
          w1 = setView view1
                 (markChanges (bd_off bd + dl_line cl1) cl1 (MARKER_MASK_CHANGED mm) (getView w view1)) w;
          cl2 = changedLines (bd_info matchBd) ! lineIdx
      in setView view2
           (markChanges (bd_off matchBd + dl_line cl2) cl2 (MARKER_MASK_CHANGED mm) (getView w1 view2)) w1)"

text \<open>
  The state of \<open>markAllDiffs\<close>: the world, the alignment table, the pair under
  construction and the two document descriptors, whose sections the function uses
  as scratch variables. \<open>pMainAlignData\<close> is linked to \<open>doc1\<close>: \<open>sw\<close> tells that the
  two pointers were swapped at the start.
\<close>

record markState =
  ms_world :: world
  ms_alignmentInfo :: "AlignmentPair list"
  ms_alignPair :: AlignmentPair
  ms_doc1 :: DocCmpInfo
  ms_doc2 :: DocCmpInfo

definition updAlign1 :: "bool \<Rightarrow> (AlignmentViewData \<Rightarrow> AlignmentViewData) \<Rightarrow> AlignmentPair \<Rightarrow> AlignmentPair" where
  "updAlign1 sw f p = (if sw then p\<lparr>a_sub := f (a_sub p)\<rparr> else p\<lparr>a_main := f (a_main p)\<rparr>)"

definition updAlign2 :: "bool \<Rightarrow> (AlignmentViewData \<Rightarrow> AlignmentViewData) \<Rightarrow> AlignmentPair \<Rightarrow> AlignmentPair" where
  "updAlign2 sw f p = (if sw then p\<lparr>a_main := f (a_main p)\<rparr> else p\<lparr>a_sub := f (a_sub p)\<rparr>)"

definition setMasks :: "bool \<Rightarrow> int \<Rightarrow> int \<Rightarrow> markState \<Rightarrow> markState" where
  "setMasks sw m1 m2 st =
     st\<lparr>ms_alignPair := updAlign2 sw (\<lambda>d. d\<lparr>a_diffMask := m2\<rparr>)
                            (updAlign1 sw (\<lambda>d. d\<lparr>a_diffMask := m1\<rparr>) (ms_alignPair st))\<rparr>"

definition pushAlign :: "markState \<Rightarrow> markState" where
  "pushAlign st = st\<lparr>ms_alignmentInfo := ms_alignmentInfo st @ [ms_alignPair st]\<rparr>"

definition addLines :: "bool \<Rightarrow> int \<Rightarrow> int \<Rightarrow> markState \<Rightarrow> markState" where
  "addLines sw n1 n2 st =
     st\<lparr>ms_alignPair := updAlign2 sw (\<lambda>d. d\<lparr>a_line := a_line d + n2\<rparr>)
                            (updAlign1 sw (\<lambda>d. d\<lparr>a_line := a_line d + n1\<rparr>) (ms_alignPair st))\<rparr>"

definition setSection1 :: "(section_t \<Rightarrow> section_t) \<Rightarrow> markState \<Rightarrow> markState" where
  "setSection1 f st = st\<lparr>ms_doc1 := (ms_doc1 st)\<lparr>d_section := f (d_section (ms_doc1 st))\<rparr>\<rparr>"

definition setSection2 :: "(section_t \<Rightarrow> section_t) \<Rightarrow> markState \<Rightarrow> markState" where
  "setSection2 f st = st\<lparr>ms_doc2 := (ms_doc2 st)\<lparr>d_section := f (d_section (ms_doc2 st))\<rparr>\<rparr>"

definition markSection1 :: "MarkerMasks \<Rightarrow> diffInfo \<Rightarrow> markState \<Rightarrow> markState option" where
  "markSection1 mm bd st =
     (case markSection mm bd (ms_doc1 st) (ms_world st) of
        None \<Rightarrow> None | Some w \<Rightarrow> Some (st\<lparr>ms_world := w\<rparr>))"

definition markSection2 :: "MarkerMasks \<Rightarrow> diffInfo \<Rightarrow> markState \<Rightarrow> markState option" where
  "markSection2 mm bd st =
     (case markSection mm bd (ms_doc2 st) (ms_world st) of
        None \<Rightarrow> None | Some w \<Rightarrow> Some (st\<lparr>ms_world := w\<rparr>))"

text \<open>
  The part of \<open>markAllDiffs\<close> that marks what lies before a changed line, or after the
  last one, in a pair of partnered blocks.
\<close>

definition markUnchangedPart :: "MarkerMasks \<Rightarrow> bool \<Rightarrow> diffInfo \<Rightarrow> diffInfo \<Rightarrow> markState \<Rightarrow> markState option" where
  "markUnchangedPart mm sw bd matchBd st =
     (if len (d_section (ms_doc1 st)) \<noteq> 0 \<or> len (d_section (ms_doc2 st)) \<noteq> 0
      then (let st1 = pushAlign (setMasks sw (d_blockDiffMask (ms_doc1 st)) (d_blockDiffMask (ms_doc2 st)) st)
            in case (if len (d_section (ms_doc1 st1)) \<noteq> 0
                     then (case markSection1 mm bd st1 of
                             None \<Rightarrow> None
                           | Some s \<Rightarrow> Some (addLines sw (len (d_section (ms_doc1 s))) 0 s))
                     else Some st1) of
                 None \<Rightarrow> None
               | Some st2 \<Rightarrow>
                   if len (d_section (ms_doc2 st2)) \<noteq> 0
                   then (case markSection2 mm matchBd st2 of
                           None \<Rightarrow> None
                         | Some s \<Rightarrow> Some (addLines sw 0 (len (d_section (ms_doc2 s))) s))
                   else Some st2)
      else Some st)"

text \<open>The loop over the changed lines \<open>j\<close> of a pair of partnered blocks.\<close>

fun changedLinesLoop ::
  "MarkerMasks \<Rightarrow> bool \<Rightarrow> diffInfo \<Rightarrow> diffInfo \<Rightarrow> nat list \<Rightarrow> markState \<Rightarrow> markState option" where
  "changedLinesLoop mm sw bd matchBd [] st = Some st"
| "changedLinesLoop mm sw bd matchBd (j # js) st =
     (let st1 = setSection2 (\<lambda>s. s\<lparr>len := dl_line (changedLines (bd_info matchBd) ! j) - off s\<rparr>)
                  (setSection1 (\<lambda>s. s\<lparr>len := dl_line (changedLines (bd_info bd) ! j) - off s\<rparr>) st)
      in case markUnchangedPart mm sw bd matchBd st1 of
           None \<Rightarrow> None
         | Some st2 \<Rightarrow>
             (let st3 = pushAlign (setMasks sw (MARKER_MASK_CHANGED mm) (MARKER_MASK_CHANGED mm) st2);
                  st4 = st3\<lparr>ms_world := markLineDiffs mm (d_view (ms_doc1 st3)) (d_view (ms_doc2 st3))
                                           bd matchBd j (ms_world st3)\<rparr>;
                  st5 = setSection2 (\<lambda>s. s\<lparr>off := dl_line (changedLines (bd_info matchBd) ! j) + 1\<rparr>)
                          (setSection1 (\<lambda>s. s\<lparr>off := dl_line (changedLines (bd_info bd) ! j) + 1\<rparr>) st4)
              in changedLinesLoop mm sw bd matchBd js (addLines sw 1 1 st5)))"

text \<open>
  The body of the loop over the blocks in \<open>markAllDiffs\<close>, up to the call of
  \<open>Advance\<close>.
\<close>

definition markBlock :: "MarkerMasks \<Rightarrow> bool \<Rightarrow> diffInfo list \<Rightarrow> nat \<Rightarrow> markState \<Rightarrow> markState option" where
  "markBlock mm sw blockDiffs i st =
     (let bd = blockDiffs ! i
      in case bd_type bd of
           DIFF_MATCH \<Rightarrow>
             Some (addLines sw (bd_len bd) (bd_len bd) (pushAlign (setMasks sw 0 0 st)))
         | DIFF_IN_2 \<Rightarrow>
             (case markSection2 mm bd (setSection2 (\<lambda>s. \<lparr>off = 0, len = bd_len bd\<rparr>) st) of
                None \<Rightarrow> None
              | Some st1 \<Rightarrow>
                  Some (addLines sw 0 (bd_len bd)
                          (pushAlign (setMasks sw 0 (d_blockDiffMask (ms_doc2 st1)) st1))))
         | DIFF_IN_1 \<Rightarrow>
             (case matchBlock (bd_info bd) of
                Some mb \<Rightarrow>
                  (let matchBd = blockDiffs ! mb;
                       st0 = setSection2 (\<lambda>s. s\<lparr>off := 0\<rparr>) (setSection1 (\<lambda>s. s\<lparr>off := 0\<rparr>) st)
                   in case changedLinesLoop mm sw bd matchBd
                             [0..<length (changedLines (bd_info bd))] st0 of
                        None \<Rightarrow> None
                      | Some st1 \<Rightarrow>
                          markUnchangedPart mm sw bd matchBd
                            (setSection2 (\<lambda>s. s\<lparr>len := bd_len matchBd - off s\<rparr>)
                               (setSection1 (\<lambda>s. s\<lparr>len := bd_len bd - off s\<rparr>) st1)))
              | None \<Rightarrow>
                  (case markSection1 mm bd (setSection1 (\<lambda>s. \<lparr>off = 0, len = bd_len bd\<rparr>) st) of
                     None \<Rightarrow> None
                   | Some st1 \<Rightarrow>
                       Some (addLines sw (bd_len bd) 0
                               (pushAlign (setMasks sw (d_blockDiffMask (ms_doc1 st1)) 0 st1))))))"

text \<open>
  The number of blocks one iteration consumes: a block with a partner takes the
  partner with it (the \<open>++i\<close> at the end of that branch).
\<close>

definition blockStride :: "diffInfo \<Rightarrow> nat" where
  "blockStride bd = (if bd_type bd = DIFF_IN_1 \<and> matchBlock (bd_info bd) \<noteq> None then 2 else 1)"

text \<open>
  The loop over the blocks; the flag of the result is false when the loop was left
  by \<open>return false\<close>.
\<close>

function markBlocksLoop ::
  "MarkerMasks \<Rightarrow> bool \<Rightarrow> diffInfo list \<Rightarrow> nat \<Rightarrow> markState \<Rightarrow> (bool \<times> markState) option" where
  "markBlocksLoop mm sw blockDiffs i st =
     (if i < length blockDiffs
      then (case markBlock mm sw blockDiffs i st of
              None \<Rightarrow> None
            | Some st1 \<Rightarrow>
                (if fst (advanceCancelled (ms_world st1))
                 then Some (False, st1\<lparr>ms_world := snd (advanceCancelled (ms_world st1))\<rparr>)
                 else markBlocksLoop mm sw blockDiffs (i + blockStride (blockDiffs ! i))
                        (st1\<lparr>ms_world := snd (advanceCancelled (ms_world st1))\<rparr>)))
      else Some (True, st))"
  by pat_completeness auto
termination
  by (relation "measure (\<lambda>(mm, sw, blockDiffs, i, st). length blockDiffs - i)")
     (auto simp: blockStride_def)

declare markBlocksLoop.simps [simp del]

record CompareInfo =
  ci_doc1 :: DocCmpInfo
  ci_doc2 :: DocCmpInfo
  ci_selectionCompare :: bool
  ci_blockDiffs :: "diffInfo list"

definition markAllDiffs ::
  "MarkerMasks \<Rightarrow> CompareInfo \<Rightarrow> world \<Rightarrow> (bool \<times> AlignmentPair list \<times> world) option" where
  "markAllDiffs mm cmpInfo w =
     (let w1 = (if p_open (progress w) then SetMaxCount (int (length (ci_blockDiffs cmpInfo))) w else w);
          sw = (d_view (ci_doc1 cmpInfo) = SUB_VIEW);
          alignPair = updAlign2 sw (\<lambda>d. d\<lparr>a_line := off (d_section (ci_doc2 cmpInfo))\<rparr>)
                        (updAlign1 sw (\<lambda>d. d\<lparr>a_line := off (d_section (ci_doc1 cmpInfo))\<rparr>)
                           defaultAlignmentPair)
      in case markBlocksLoop mm sw (ci_blockDiffs cmpInfo) 0
                \<lparr>ms_world = w1, ms_alignmentInfo = [], ms_alignPair = alignPair,
                 ms_doc1 = ci_doc1 cmpInfo, ms_doc2 = ci_doc2 cmpInfo\<rparr> of
           None \<Rightarrow> None
         | Some (completed, st) \<Rightarrow>
             if \<not> completed then Some (False, ms_alignmentInfo st, ms_world st)
             else (let st1 = (if ci_selectionCompare cmpInfo then pushAlign (setMasks sw 0 0 st) else st)
                   in Some (\<not> fst (phaseCancelled (ms_world st1)), ms_alignmentInfo st1,
                            snd (phaseCancelled (ms_world st1)))))"

subsection \<open>The compare mode\<close>

text \<open>
  How a part of \<open>runCompare\<close> ends: by an exception or undefined behaviour, by a
  \<open>return\<close> of the function, or by going on with the next part.
\<close>

datatype 'a stage = Fault fault | Return CompareResult | Continue 'a

text \<open>
  Lines 934 to 963: the two documents are hashed, and the longer sequence of hashes
  becomes the first one, its document with it.
\<close>

definition hashLines ::
  "MarkerMasks \<Rightarrow> section_t \<Rightarrow> section_t \<Rightarrow> UserSettings \<Rightarrow> world
     \<Rightarrow> (CompareInfo \<times> uint64 list \<times> uint64 list) stage \<times> world" where
  "hashLines mm mainViewSection subViewSection settings w =
     (let doc1 = \<lparr>d_view = MAIN_VIEW, d_section = mainViewSection,
                  d_blockDiffMask = (if OldFileViewId settings = MAIN_VIEW
                                     then MARKER_MASK_REMOVED mm else MARKER_MASK_ADDED mm)\<rparr>;
          doc2 = \<lparr>d_view = SUB_VIEW, d_section = subViewSection,
                  d_blockDiffMask = (if OldFileViewId settings = MAIN_VIEW
                                     then MARKER_MASK_ADDED mm else MARKER_MASK_REMOVED mm)\<rparr>;
          selectionCompare = (len mainViewSection \<noteq> 0 \<or> len subViewSection \<noteq> 0)
      in case computeLineHashes doc1 settings w of
           (Inl e, w1) \<Rightarrow> (Fault e, w1)
         | (Inr (doc1LineHashes, doc1'), w1) \<Rightarrow>
      (if fst (phaseCancelled w1) then (Return COMPARE_CANCELLED, snd (phaseCancelled w1))
       else
      (case computeLineHashes doc2 settings (snd (phaseCancelled w1)) of
           (Inl e, w3) \<Rightarrow> (Fault e, w3)
         | (Inr (doc2LineHashes, doc2'), w3) \<Rightarrow>
      (if fst (phaseCancelled w3) then (Return COMPARE_CANCELLED, snd (phaseCancelled w3))
       else if length doc1LineHashes < length doc2LineHashes
       then (Continue (\<lparr>ci_doc1 = doc2', ci_doc2 = doc1', ci_selectionCompare = selectionCompare,
                         ci_blockDiffs = []\<rparr>, doc2LineHashes, doc1LineHashes),
             snd (phaseCancelled w3))
       else (Continue (\<lparr>ci_doc1 = doc1', ci_doc2 = doc2', ci_selectionCompare = selectionCompare,
                         ci_blockDiffs = []\<rparr>, doc1LineHashes, doc2LineHashes),
             snd (phaseCancelled w3))))))"

text \<open>Lines 965 to 970: the line-level diff and the early return on a single MATCH block.\<close>

definition lineDiff ::
  "(uint64 list \<Rightarrow> uint64 list \<Rightarrow> fault + diff_span list) \<Rightarrow> CompareInfo \<Rightarrow> uint64 list \<Rightarrow> uint64 list
     \<Rightarrow> CompareInfo stage" where
  "lineDiff diffLines cmpInfo lineHashes1 lineHashes2 =
     (case diffLines lineHashes1 lineHashes2 of
        Inl e \<Rightarrow> Fault e
      | Inr spans \<Rightarrow>
          (let blockDiffs = map blockOfSpan spans
           in if length blockDiffs = 1 \<and> bd_type (blockDiffs ! 0) = DIFF_MATCH
              then Return COMPARE_MATCH
              else Continue (cmpInfo\<lparr>ci_blockDiffs := blockDiffs\<rparr>)))"

definition onView :: "int \<Rightarrow> (sci_view \<Rightarrow> sci_view) \<Rightarrow> world \<Rightarrow> world" where
  "onView view f w = setView view (f (getView w view)) w"

text \<open>
  Modelled from the spec: \<open>ScopedViewWriteEnabler\<close> is declared outside Engine.cpp; it
  makes a read-only view writable for the time of its scope. \<open>writeEnable\<close> is its
  constructor, \<open>writeRestore\<close> its destructor, which gets the flag the constructor saw.
\<close>

definition writeEnable :: "sci_view \<Rightarrow> sci_view" where
  "writeEnable v = v\<lparr>v_readOnly := False\<rparr>"

definition writeRestore :: "bool \<Rightarrow> sci_view \<Rightarrow> sci_view" where
  "writeRestore isRO v = (if isRO then v\<lparr>v_readOnly := True\<rparr> else v)"

text \<open>Lines 981 to 993: the body of the conditional, without the two increments.\<close>

definition insertBlankLines :: "int \<Rightarrow> int \<Rightarrow> world \<Rightarrow> world" where
  "insertBlankLines view1 view2 w =
     (let doc1Modified = v_modified (getView w view1);
          doc2Modified = v_modified (getView w view2);
          isRO1 = v_readOnly (getView w view1);
          w1 = onView view1 writeEnable w;
          isRO2 = v_readOnly (getView w1 view2);
          w2 = onView view2 writeEnable w1;
          w3 = onView view1 (SCI_INSERTTEXT0 [0x0A]) w2;
          w4 = (if \<not> doc1Modified then onView view1 SCI_SETSAVEPOINT w3 else w3);
          w5 = onView view2 (SCI_INSERTTEXT0 [0x0A]) w4;
          w6 = (if \<not> doc2Modified then onView view2 SCI_SETSAVEPOINT w5 else w5)
      in onView view1 (writeRestore isRO1) (onView view2 (writeRestore isRO2) w6))"

definition bumpOff :: "DocCmpInfo \<Rightarrow> DocCmpInfo" where
  "bumpOff doc = doc\<lparr>d_section := (d_section doc)\<lparr>off := off (d_section doc) + 1\<rparr>\<rparr>"

text \<open>
  Lines 978 to 997. \<open>blockDiffs[0]\<close> is read without a check of the size: on an empty
  vector the behaviour is undefined.
\<close>

definition insertLeadingLines :: "CompareInfo \<Rightarrow> world \<Rightarrow> CompareInfo stage \<times> world" where
  "insertLeadingLines cmpInfo w =
     (if ci_blockDiffs cmpInfo = [] then (Fault UndefinedBehaviour, w)
      else if bd_type (ci_blockDiffs cmpInfo ! 0) \<noteq> DIFF_MATCH \<and>
              (off (d_section (ci_doc1 cmpInfo)) = 0 \<or> off (d_section (ci_doc2 cmpInfo)) = 0)
      then (Continue (cmpInfo\<lparr>ci_doc1 := bumpOff (ci_doc1 cmpInfo), ci_doc2 := bumpOff (ci_doc2 cmpInfo)\<rparr>),
            insertBlankLines (d_view (ci_doc1 cmpInfo)) (d_view (ci_doc2 cmpInfo)) w)
      else (Continue cmpInfo, w))"

text \<open>Lines 999 to 1008.\<close>

definition rebaseBlock :: "int \<Rightarrow> int \<Rightarrow> diffInfo \<Rightarrow> diffInfo" where
  "rebaseBlock off1 off2 bd =
     (if bd_type bd = DIFF_IN_1 \<or> bd_type bd = DIFF_MATCH then bd\<lparr>bd_off := bd_off bd + off1\<rparr>
      else if bd_type bd = DIFF_IN_2 then bd\<lparr>bd_off := bd_off bd + off2\<rparr>
      else bd)"

definition rebaseOffsets :: "CompareInfo \<Rightarrow> CompareInfo" where
  "rebaseOffsets cmpInfo =
     (if off (d_section (ci_doc1 cmpInfo)) \<noteq> 0 \<or> off (d_section (ci_doc2 cmpInfo)) \<noteq> 0
      then cmpInfo\<lparr>ci_blockDiffs := map (rebaseBlock (off (d_section (ci_doc1 cmpInfo)))
                                           (off (d_section (ci_doc2 cmpInfo))))
                                      (ci_blockDiffs cmpInfo)\<rparr>
      else cmpInfo)"

text \<open>
  The body of the loop of the block compares, up to the call of \<open>Advance\<close>: an IN_2
  block that follows an IN_1 block becomes its partner, and the two are compared.
\<close>

definition compareBlockAt ::
  "(Word list \<Rightarrow> Word list \<Rightarrow> fault + diff_span list) \<Rightarrow> UserSettings \<Rightarrow> DocCmpInfo \<Rightarrow> DocCmpInfo
     \<Rightarrow> nat \<Rightarrow> diffInfo list \<Rightarrow> world \<Rightarrow> fault + diffInfo list" where
  "compareBlockAt diffWords settings doc1 doc2 i blockDiffs w =
     (if bd_type (blockDiffs ! i) = DIFF_IN_2 \<and> i \<noteq> 0 \<and> bd_type (blockDiffs ! (i - 1)) = DIFF_IN_1
      then (let blockDiff1 = (blockDiffs ! (i - 1))
                               \<lparr>bd_info := (bd_info (blockDiffs ! (i - 1)))\<lparr>matchBlock := Some i\<rparr>\<rparr>;
                blockDiff2 = (blockDiffs ! i)
                               \<lparr>bd_info := (bd_info (blockDiffs ! i))\<lparr>matchBlock := Some (i - 1)\<rparr>\<rparr>
            in case compareBlocks diffWords (getView w (d_view doc1)) (getView w (d_view doc2))
                      settings blockDiff1 blockDiff2 of
                 Inl e \<Rightarrow> Inl e
               | Inr (blockDiff1', blockDiff2') \<Rightarrow>
                   Inr (blockDiffs[i - 1 := blockDiff1', i := blockDiff2']))
      else Inr blockDiffs)"

fun compareBlocksLoop ::
  "(Word list \<Rightarrow> Word list \<Rightarrow> fault + diff_span list) \<Rightarrow> UserSettings \<Rightarrow> DocCmpInfo \<Rightarrow> DocCmpInfo
     \<Rightarrow> nat list \<Rightarrow> diffInfo list \<Rightarrow> world \<Rightarrow> diffInfo list stage \<times> world" where
  "compareBlocksLoop diffWords settings doc1 doc2 [] blockDiffs w = (Continue blockDiffs, w)"
| "compareBlocksLoop diffWords settings doc1 doc2 (i # rest) blockDiffs w =
     (case compareBlockAt diffWords settings doc1 doc2 i blockDiffs w of
        Inl e \<Rightarrow> (Fault e, w)
      | Inr blockDiffs' \<Rightarrow>
          (if fst (advanceCancelled w) then (Return COMPARE_CANCELLED, snd (advanceCancelled w))
           else compareBlocksLoop diffWords settings doc1 doc2 rest blockDiffs'
                  (snd (advanceCancelled w))))"

text \<open>Lines 1010 to 1039.\<close>

definition compareAllBlocks ::
  "(Word list \<Rightarrow> Word list \<Rightarrow> fault + diff_span list) \<Rightarrow> UserSettings \<Rightarrow> CompareInfo \<Rightarrow> world
     \<Rightarrow> CompareInfo stage \<times> world" where
  "compareAllBlocks diffWords settings cmpInfo w =
     (if fst (phaseCancelled w) then (Return COMPARE_CANCELLED, snd (phaseCancelled w))
      else (let w1 = snd (phaseCancelled w);
                w2 = (if p_open (progress w1)
                      then SetMaxCount (int (length (ci_blockDiffs cmpInfo))) w1 else w1)
            in case compareBlocksLoop diffWords settings (ci_doc1 cmpInfo) (ci_doc2 cmpInfo)
                      [0..<length (ci_blockDiffs cmpInfo)] (ci_blockDiffs cmpInfo) w2 of
                 (Fault e, w3) \<Rightarrow> (Fault e, w3)
               | (Return r, w3) \<Rightarrow> (Return r, w3)
               | (Continue blockDiffs', w3) \<Rightarrow>
                   (if fst (phaseCancelled w3)
                    then (Return COMPARE_CANCELLED, snd (phaseCancelled w3))
                    else (Continue (cmpInfo\<lparr>ci_blockDiffs := blockDiffs'\<rparr>), snd (phaseCancelled w3)))))"

text \<open>
  \<open>runCompare\<close>. The result holds the value returned or the fault, the alignment
  table of the caller (\<open>alignmentInfo\<close> is an in-out parameter) and the world;
  \<open>None\<close> tells that the function does not return.
\<close>

definition runCompare ::
  "MarkerMasks \<Rightarrow> (uint64 list \<Rightarrow> uint64 list \<Rightarrow> fault + diff_span list)
     \<Rightarrow> (Word list \<Rightarrow> Word list \<Rightarrow> fault + diff_span list)
     \<Rightarrow> section_t \<Rightarrow> section_t \<Rightarrow> UserSettings \<Rightarrow> AlignmentPair list \<Rightarrow> world
     \<Rightarrow> ((fault + CompareResult) \<times> AlignmentPair list \<times> world) option" where
  "runCompare mm diffLines diffWords mainViewSection subViewSection settings alignmentInfo w =
     (case hashLines mm mainViewSection subViewSection settings w of
        (Fault e, w1) \<Rightarrow> Some (Inl e, alignmentInfo, w1)
      | (Return r, w1) \<Rightarrow> Some (Inr r, alignmentInfo, w1)
      | (Continue (cmpInfo, lineHashes1, lineHashes2), w1) \<Rightarrow>
     (case lineDiff diffLines cmpInfo lineHashes1 lineHashes2 of
        Fault e \<Rightarrow> Some (Inl e, alignmentInfo, w1)
      | Return r \<Rightarrow> Some (Inr r, alignmentInfo, w1)
      | Continue cmpInfo1 \<Rightarrow>
     (case (if DetectMoves settings then findMoves (ci_blockDiffs cmpInfo1) lineHashes1 lineHashes2
            else Some (ci_blockDiffs cmpInfo1)) of
        None \<Rightarrow> None
      | Some blockDiffs \<Rightarrow>
     (case insertLeadingLines (cmpInfo1\<lparr>ci_blockDiffs := blockDiffs\<rparr>) w1 of
        (Fault e, w2) \<Rightarrow> Some (Inl e, alignmentInfo, w2)
      | (Return r, w2) \<Rightarrow> Some (Inr r, alignmentInfo, w2)
      | (Continue cmpInfo2, w2) \<Rightarrow>
     (case compareAllBlocks diffWords settings (rebaseOffsets cmpInfo2) w2 of
        (Fault e, w3) \<Rightarrow> Some (Inl e, alignmentInfo, w3)
      | (Return r, w3) \<Rightarrow> Some (Inr r, alignmentInfo, w3)
      | (Continue cmpInfo3, w3) \<Rightarrow>
     (case markAllDiffs mm cmpInfo3 w3 of
        None \<Rightarrow> None
      | Some (ok, alignmentInfo', w4) \<Rightarrow>
          Some (Inr (if ok then COMPARE_MISMATCH else COMPARE_CANCELLED), alignmentInfo', w4)))))))"

subsection \<open>The entry point\<close>

text \<open>
  Modelled from the spec: \<open>ProgressDlg::Open\<close> and \<open>ProgressDlg::Close\<close> (ProgressDlg.h is
  not part of the sources at hand) create and destroy the dialog that
  \<open>ProgressDlg::Get\<close> returns, and \<open>MessageBoxA\<close> shows a message to the user.
\<close>

definition ProgressDlg_Open :: "world \<Rightarrow> world" where
  "ProgressDlg_Open w = w\<lparr>progress := (progress w)\<lparr>p_open := True\<rparr>\<rparr>"

definition ProgressDlg_Close :: "world \<Rightarrow> world" where
  "ProgressDlg_Close w = w\<lparr>progress := (progress w)\<lparr>p_open := False\<rparr>\<rparr>"

definition MessageBoxA :: "string \<Rightarrow> world \<Rightarrow> world" where
  "MessageBoxA msg w = w\<lparr>messages := messages w @ [msg]\<rparr>"

text \<open>
  The two modes behind one result type. \<open>runFindUnique\<close> clears the alignment table
  before anything else, so the table is empty when it throws.
\<close>

definition runMode ::
  "MarkerMasks \<Rightarrow> (uint64 list \<Rightarrow> uint64 list \<Rightarrow> fault + diff_span list)
     \<Rightarrow> (Word list \<Rightarrow> Word list \<Rightarrow> fault + diff_span list)
     \<Rightarrow> section_t \<Rightarrow> section_t \<Rightarrow> bool \<Rightarrow> UserSettings \<Rightarrow> AlignmentPair list \<Rightarrow> world
     \<Rightarrow> ((fault + CompareResult) \<times> AlignmentPair list \<times> world) option" where
  "runMode mm diffLines diffWords mainViewSection subViewSection findUniqueMode settings alignmentInfo w =
     (if findUniqueMode
      then (case runFindUnique mm mainViewSection subViewSection settings w of
              (Inl e, w1) \<Rightarrow> Some (Inl e, [], w1)
            | (Inr (r, alignmentInfo'), w1) \<Rightarrow> Some (Inr r, alignmentInfo', w1))
      else runCompare mm diffLines diffWords mainViewSection subViewSection settings alignmentInfo w)"

text \<open>
  \<open>compareViews\<close>. \<open>progressInfo\<close> is a pointer that may be null. An exception of the
  mode leaves \<open>result\<close> at its initial value \<open>COMPARE_ERROR\<close>; the message is cut to the
  127 characters that fit the buffer. Undefined behaviour is not an exception: no
  handler sees it.
\<close>

definition compareViews ::
  "MarkerMasks \<Rightarrow> (uint64 list \<Rightarrow> uint64 list \<Rightarrow> fault + diff_span list)
     \<Rightarrow> (Word list \<Rightarrow> Word list \<Rightarrow> fault + diff_span list)
     \<Rightarrow> section_t \<Rightarrow> section_t \<Rightarrow> bool \<Rightarrow> UserSettings \<Rightarrow> string option \<Rightarrow> AlignmentPair list \<Rightarrow> world
     \<Rightarrow> ((fault + CompareResult) \<times> AlignmentPair list \<times> world) option" where
  "compareViews mm diffLines diffWords mainViewSection subViewSection findUniqueMode settings
       progressInfo alignmentInfo w =
     (let w0 = (if progressInfo \<noteq> None then ProgressDlg_Open w else w)
      in case runMode mm diffLines diffWords mainViewSection subViewSection findUniqueMode settings
                alignmentInfo w0 of
           None \<Rightarrow> None
         | Some (Inr result, alignmentInfo', w1) \<Rightarrow> Some (Inr result, alignmentInfo', ProgressDlg_Close w1)
         | Some (Inl (Exception what), alignmentInfo', w1) \<Rightarrow>
             Some (Inr COMPARE_ERROR, alignmentInfo',
                   MessageBoxA (take 127 (''Exception occurred: '' @ what)) (ProgressDlg_Close w1))
         | Some (Inl UnknownException, alignmentInfo', w1) \<Rightarrow>
             Some (Inr COMPARE_ERROR, alignmentInfo',
                   MessageBoxA ''Unknown exception occurred.'' (ProgressDlg_Close w1))
         | Some (Inl UndefinedBehaviour, alignmentInfo', w1) \<Rightarrow>
             Some (Inl UndefinedBehaviour, alignmentInfo', w1))"

subsection \<open>Reference notions for FindUnique\<close>

text \<open>
  The hash sequence that line hashing returns for the section \<open>sec\<close> of a view when
  nobody cancels: the hash of every line of the section, without a last line that
  hashes to the seed value.
\<close>

definition sectionHashes :: "UserSettings \<Rightarrow> int \<Rightarrow> section_t \<Rightarrow> world \<Rightarrow> uint64 list" where
  "sectionHashes settings view sec w =
     (let n = sectionLen (docOf view (off sec) (len sec)) w;
          full = map (\<lambda>k. lineHashOf settings
                             (splitLines (v_text (getView w view)) ! nat (off sec + int k)))
                   [0..<nat n]
      in if n \<noteq> 0 \<and> last full = cHashSeed then butlast full else full)"

text \<open>
  The specification's residual for one document: line \<open>n\<close> of the document is in it
  when it is a line of the section whose hash does not occur among the hashes of
  the other document.
\<close>

definition residualLine :: "uint64 list \<Rightarrow> uint64 list \<Rightarrow> int \<Rightarrow> int \<Rightarrow> bool" where
  "residualLine hs other secOff n =
     (\<exists>i \<in> set [0..<length hs]. n = secOff + int i \<and> hs ! i \<notin> set other)"

definition exMasks :: MarkerMasks where
  "exMasks = \<lparr>MARKER_MASK_ADDED = 1, MARKER_MASK_REMOVED = 2, MARKER_MASK_ADDED_LOCAL = 4,
     MARKER_MASK_REMOVED_LOCAL = 8, MARKER_MASK_MOVED_LINE = 16, MARKER_MASK_MOVED_BEGIN = 32,
     MARKER_MASK_MOVED_MID = 64, MARKER_MASK_MOVED_END = 128, MARKER_MASK_CHANGED = 256\<rparr>"

subsection \<open>What a step leaves unchanged\<close>

text \<open>
  \<open>docFrame\<close>: two states of a view agree in everything but markers and changed
  ranges. \<open>marksOnly\<close>: a step touched nothing but markers and changed ranges.
  \<open>docsKept\<close>: as before, but the step may also have used the progress dialog.
\<close>

definition docFrame :: "sci_view \<Rightarrow> sci_view \<Rightarrow> bool" where
  "docFrame v v' = (v_text v' = v_text v \<and> v_modified v' = v_modified v \<and> v_readOnly v' = v_readOnly v)"

definition docsKept :: "world \<Rightarrow> world \<Rightarrow> bool" where
  "docsKept w w' = (docFrame (mainView w) (mainView w') \<and> docFrame (subView w) (subView w'))"

definition marksOnly :: "world \<Rightarrow> world \<Rightarrow> bool" where
  "marksOnly w w' = (progress w' = progress w \<and> messages w' = messages w \<and> docsKept w w')"

text \<open>
  \<open>lineAdded\<close>: both documents got one line feed in front, and nothing else of
  their text, their modification flag or their read-only flag changed.
\<close>

definition lineAddedTo :: "sci_view \<Rightarrow> sci_view \<Rightarrow> bool" where
  "lineAddedTo v v' = (v_text v' = 0x0A # v_text v \<and> v_modified v' = v_modified v
                        \<and> v_readOnly v' = v_readOnly v)"

definition lineAdded :: "world \<Rightarrow> world \<Rightarrow> bool" where
  "lineAdded w w' = (lineAddedTo (mainView w) (mainView w') \<and> lineAddedTo (subView w) (subView w'))"

text \<open>\<open>kept\<close>: the documents are kept, and so is the promise of the user never to cancel.\<close>

definition kept :: "world \<Rightarrow> world \<Rightarrow> bool" where
  "kept w w' = (docsKept w w' \<and> messages w' = messages w \<and> (neverCancelled w \<longrightarrow> neverCancelled w'))"

text \<open>The value a run returned, and the world it left.\<close>

definition outcome ::
  "((fault + CompareResult) \<times> AlignmentPair list \<times> world) option \<Rightarrow> (fault + CompareResult) option" where
  "outcome r = map_option fst r"

definition finalWorld ::
  "((fault + CompareResult) \<times> AlignmentPair list \<times> world) option \<Rightarrow> world option" where
  "finalWorld r = map_option (\<lambda>x. snd (snd x)) r"

text \<open>
  The line-level diff of a run in compare mode: the spans \<open>DiffCalc\<close> returns for
  the two sequences of line hashes, when the run gets that far.
\<close>

definition lineLevelDiff ::
  "MarkerMasks \<Rightarrow> (uint64 list \<Rightarrow> uint64 list \<Rightarrow> fault + diff_span list) \<Rightarrow> section_t \<Rightarrow> section_t
     \<Rightarrow> UserSettings \<Rightarrow> world \<Rightarrow> diff_span list option" where
  "lineLevelDiff mm diffLines mainViewSection subViewSection settings w =
     (case hashLines mm mainViewSection subViewSection settings w of
        (Continue (cmpInfo, lineHashes1, lineHashes2), w1) \<Rightarrow>
          (case diffLines lineHashes1 lineHashes2 of Inl e \<Rightarrow> None | Inr spans \<Rightarrow> Some spans)
      | _ \<Rightarrow> None)"

section \<open>Verified properties\<close>

subsection \<open>Tokenizer\<close>

lemma wordsLoop_tiles:
  "wordsLoop False cs i word ws = (word', ws') \<Longrightarrow> partialRun pre lineNum word \<Longrightarrow>
   i = w_pos word + w_length word \<Longrightarrow>
   \<exists>rest. ws' = ws @ rest \<and> maximalRunsOf (pre @ cs) lineNum (w_pos word) (rest @ [word'])"
proof (induction cs arbitrary: i word ws pre)
  case Nil
  then show ?case by (auto simp: partialRun_def Suc_le_eq)
next
  case (Cons c cs)
  show ?case
  proof (cases "getCharType c = w_type word")
    case True
    let ?w = "word\<lparr>w_length := w_length word + 1, w_hash := Hash (w_hash word) c\<rparr>"
    from Cons.prems(1) True have run: "wordsLoop False cs (i + 1) ?w ws = (word', ws')"
      by simp
    from Cons.prems(2) True have pr: "partialRun (pre @ [c]) lineNum ?w"
      by (auto simp: partialRun_def)
    from Cons.IH [OF run pr] Cons.prems(3) show ?thesis by simp
  next
    case False
    let ?w = "word\<lparr>w_type := getCharType c, w_hash := Hash cHashSeed c, w_pos := i, w_length := 1\<rparr>"
    from Cons.prems(1) False have run: "wordsLoop False cs (i + 1) ?w (ws @ [word]) = (word', ws')"
      by simp
    from Cons.prems(2) have pr: "partialRun [c] lineNum ?w"
      by (auto simp: partialRun_def)
    from Cons.IH [OF run pr] obtain rest where
      r: "ws' = (ws @ [word]) @ rest" "maximalRunsOf ([c] @ cs) lineNum i (rest @ [word'])"
      by auto
    have "maximalRunsOf (pre @ c # cs) lineNum (w_pos word) (word # rest @ [word'])"
      using Cons.prems(2,3) False r(2) by (auto simp: partialRun_def Suc_le_eq)
    with r(1) show ?thesis by auto
  qed
qed

lemma wordsLoop_ignore:
  "wordsLoop False cs i word ws0 = (w', ws0') \<Longrightarrow>
   wordsLoop True cs i word (filter (\<lambda>w. w_type w \<noteq> SPACECHAR) ws0)
     = (w', filter (\<lambda>w. w_type w \<noteq> SPACECHAR) ws0')"
proof (induction cs arbitrary: i word ws0)
  case Nil
  then show ?case by simp
next
  case (Cons c cs)
  show ?case
  proof (cases "getCharType c = w_type word")
    case True
    let ?w = "word\<lparr>w_length := w_length word + 1, w_hash := Hash (w_hash word) c\<rparr>"
    from Cons.prems True have run: "wordsLoop False cs (i + 1) ?w ws0 = (w', ws0')"
      by simp
    from Cons.IH [OF run] True show ?thesis by simp
  next
    case False
    let ?w = "word\<lparr>w_type := getCharType c, w_hash := Hash cHashSeed c, w_pos := i, w_length := 1\<rparr>"
    from Cons.prems False have run: "wordsLoop False cs (i + 1) ?w (ws0 @ [word]) = (w', ws0')"
      by simp
    from Cons.IH [OF run] False show ?thesis
      by (cases "w_type word = SPACECHAR") simp_all
  qed
qed

lemma lowerByte_range:
  "0x41 \<le> b \<Longrightarrow> b \<le> 0x5A \<Longrightarrow> 0x61 \<le> b + 0x20 \<and> b + 0x20 \<le> (0x7A :: byte)"
proof -
  assume a: "0x41 \<le> b" "b \<le> 0x5A"
  then have u: "65 \<le> unat b" "unat b \<le> 90"
    by (simp_all add: word_le_nat_alt)
  then have "unat (b + 0x20) = unat b + 32"
    by (simp add: unat_word_ariths)
  with u show ?thesis
    by (simp add: word_le_nat_alt)
qed

lemma lower_not_space: "0x61 \<le> c \<Longrightarrow> c \<noteq> 0x20 \<and> c \<noteq> (0x09 :: byte)"
  by auto

lemma getCharType_lowerByte: "getCharType (lowerByte b) = getCharType b"
proof (cases "0x41 \<le> b \<and> b \<le> 0x5A")
  case True
  then have r: "0x61 \<le> b + 0x20 \<and> b + 0x20 \<le> 0x7A" using lowerByte_range by blast
  from True have "b \<noteq> 0x20" "b \<noteq> 0x09" by auto
  moreover from r have "b + 0x20 \<noteq> 0x20" "b + 0x20 \<noteq> 0x09"
    using lower_not_space [of "b + 0x20"] by blast+
  ultimately show ?thesis using True r
    by (simp add: getCharType_def lowerByte_def IsCharAlphaNumericA_def)
next
  case False
  then show ?thesis by (auto simp: lowerByte_def)
qed

lemma lineWords_body:
  "lineWords s n line0 =
     (case lineBody s line0 of
        [] \<Rightarrow> []
      | c # cs \<Rightarrow>
          (let (word, ws) =
                 wordsLoop (IgnoreSpaces s) cs 1
                   \<lparr>w_type = getCharType c, w_line = n, w_pos = 0, w_length = 1,
                    w_hash = Hash cHashSeed c\<rparr> []
           in if \<not> IgnoreSpaces s \<or> w_type word \<noteq> SPACECHAR then ws @ [word] else ws))"
proof (cases "int (length line0) - 1 > 0")
  case True
  then have "nat (int (length line0) - 1) = length line0 - 1" by simp
  with True show ?thesis by (simp add: lineWords_def lineBody_def Let_def)
next
  case False
  then have "length line0 - 1 = 0" by simp
  then have "lineBody s line0 = []" by (simp add: lineBody_def)
  with False show ?thesis by (simp add: lineWords_def)
qed

lemma lineBody_IgnoreSpaces: "lineBody (s\<lparr>IgnoreSpaces := x\<rparr>) line0 = lineBody s line0"
  by (simp add: lineBody_def)

lemma lineWords_runs:
  "maximalRunsOf (lineBody s line0) n 0 (lineWords (s\<lparr>IgnoreSpaces := False\<rparr>) n line0)"
proof (cases "lineBody s line0")
  case Nil
  then show ?thesis by (simp add: lineWords_body lineBody_IgnoreSpaces)
next
  case (Cons c cs)
  let ?w = "\<lparr>w_type = getCharType c, w_line = n, w_pos = 0, w_length = 1, w_hash = Hash cHashSeed c\<rparr>"
  obtain word' ws' where run: "wordsLoop False cs 1 ?w [] = (word', ws')"
    by (cases "wordsLoop False cs 1 ?w []") auto
  have pr: "partialRun [c] n ?w" by (simp add: partialRun_def)
  from wordsLoop_tiles [OF run pr] have "maximalRunsOf (c # cs) n 0 (ws' @ [word'])"
    by auto
  with Cons run show ?thesis
    by (simp add: lineWords_body lineBody_IgnoreSpaces del: maximalRunsOf.simps)
qed

lemma lineWords_ignoreSpaces:
  "lineWords (s\<lparr>IgnoreSpaces := True\<rparr>) n line0
     = filter (\<lambda>w. w_type w \<noteq> SPACECHAR) (lineWords (s\<lparr>IgnoreSpaces := False\<rparr>) n line0)"
proof (cases "lineBody s line0")
  case Nil
  then show ?thesis by (simp add: lineWords_body lineBody_IgnoreSpaces)
next
  case (Cons c cs)
  let ?w = "\<lparr>w_type = getCharType c, w_line = n, w_pos = 0, w_length = 1, w_hash = Hash cHashSeed c\<rparr>"
  obtain word' ws' where run: "wordsLoop False cs 1 ?w [] = (word', ws')"
    by (cases "wordsLoop False cs 1 ?w []") auto
  from wordsLoop_ignore [OF run]
  have "wordsLoop True cs 1 ?w [] = (word', filter (\<lambda>w. w_type w \<noteq> SPACECHAR) ws')"
    by simp
  with Cons run show ?thesis
    by (simp add: lineWords_body lineBody_IgnoreSpaces)
qed

lemma classes_toLowerCase: "map getCharType (toLowerCase l) = map getCharType l"
  by (simp add: toLowerCase_def getCharType_lowerByte)

subsection \<open>Line hashing\<close>

lemma splitLines_nonempty: "splitLines t \<noteq> []"
  by (induction t) (auto split: list.splits)

lemma line_slice:
  "n < length (splitLines t) \<Longrightarrow>
   take (length (splitLines t ! n))
     (drop (sum_list (map (\<lambda>l. length l + 1) (take n (splitLines t)))) t) = splitLines t ! n"
proof (induction t arbitrary: n)
  case Nil
  then show ?case by simp
next
  case (Cons c cs)
  show ?case
  proof (cases "c = 0x0A")
    case True
    with Cons show ?thesis by (cases n) auto
  next
    case False
    obtain l ls where sp: "splitLines cs = l # ls"
      using splitLines_nonempty [of cs] by (cases "splitLines cs") auto
    show ?thesis
    proof (cases n)
      case 0
      with False sp Cons.IH [of 0] show ?thesis by simp
    next
      case (Suc m)
      with False sp Cons.prems Cons.IH [of "Suc m"] show ?thesis by simp
    qed
  qed
qed

lemma sum_list_int_nat:
  "sum_list (map (\<lambda>l. int (length l) + 1) xs) = int (sum_list (map (\<lambda>l. length l + 1) xs))"
  by (induction xs) auto

lemma lineHashOf_Nil: "lineHashOf s [] = cHashSeed"
  by (simp add: lineHashOf_def toLowerCase_def)

lemma lineEnd_minus_start:
  assumes "0 \<le> n" "n < SCI_GETLINECOUNT v"
  shows "SCI_GETLINEENDPOSITION v n - SCI_POSITIONFROMLINE v n
           = int (length (splitLines (v_text v) ! nat n))"
  using assms by (simp add: SCI_GETLINEENDPOSITION_def)

lemma getText_line:
  assumes "0 \<le> n" "n < SCI_GETLINECOUNT v"
  shows "getText v (SCI_POSITIONFROMLINE v n) (SCI_GETLINEENDPOSITION v n)
           = splitLines (v_text v) ! nat n @ [0]"
proof -
  let ?ls = "splitLines (v_text v)"
  let ?l = "?ls ! nat n"
  let ?p = "sum_list (map (\<lambda>l. length l + 1) (take (nat n) ?ls))"
  from assms have lt: "nat n < length ?ls" by (simp add: SCI_GETLINECOUNT_def)
  have pos: "SCI_POSITIONFROMLINE v n = int ?p"
    using assms unfolding SCI_POSITIONFROMLINE_def sum_list_int_nat by simp
  have d: "SCI_GETLINEENDPOSITION v n - SCI_POSITIONFROMLINE v n = int (length ?l)"
    using assms by (rule lineEnd_minus_start)
  have sl: "take (length ?l) (drop ?p (v_text v)) = ?l"
    using line_slice [OF lt] .
  show ?thesis
  proof (cases "?l = []")
    case True
    with d show ?thesis unfolding getText_def by simp
  next
    case False
    from d pos have en: "SCI_GETLINEENDPOSITION v n = int ?p + int (length ?l)" by simp
    from False sl show ?thesis unfolding getText_def en pos by simp
  qed
qed

lemma hashLine_in_range:
  assumes "0 \<le> n" "n < SCI_GETLINECOUNT v"
  shows "hashLine s v n = lineHashOf s (splitLines (v_text v) ! nat n)"
proof (cases "splitLines (v_text v) ! nat n = []")
  case True
  with lineEnd_minus_start [OF assms] show ?thesis
    by (simp add: hashLine_def lineHashOf_Nil)
next
  case False
  with lineEnd_minus_start [OF assms]
  have nz: "SCI_GETLINEENDPOSITION v n - SCI_POSITIONFROMLINE v n \<noteq> 0" by simp
  show ?thesis
    unfolding hashLine_def Let_def getText_line [OF assms] lineHashOf_def toLowerCase_def
    using nz by simp
qed

lemma Advance_never: "p_left (progress w) = None \<Longrightarrow> Advance w = (True, w)"
  by (simp add: Advance_def)

lemma hashLoop_never:
  "neverCancelled w \<Longrightarrow>
   hashLoop s view secOff ns acc w
     = (Some (acc @ map (\<lambda>n. hashLine s (getView w view) (n + secOff)) ns), w)"
proof (induction ns arbitrary: acc)
  case Nil
  then show ?case by simp
next
  case (Cons n ns)
  show ?case
  proof (cases "p_open (progress w) \<and> n mod 500 = 0")
    case True
    with Cons.prems have "Advance w = (True, w)"
      by (simp add: neverCancelled_def Advance_never)
    with True Cons.IH [OF Cons.prems] show ?thesis by simp
  next
    case False
    with Cons.IH [OF Cons.prems] show ?thesis by auto
  qed
qed


lemma sectionLen_in_range:
  assumes "0 \<le> off (d_section doc)" "int k < sectionLen doc w"
  shows "0 \<le> int k + off (d_section doc) \<and>
         int k + off (d_section doc) < SCI_GETLINECOUNT (getView w (d_view doc))"
proof -
  let ?v = "getView w (d_view doc)"
  have "1 \<le> SCI_GETLINECOUNT ?v"
    using splitLines_nonempty [of "v_text ?v"]
    by (cases "splitLines (v_text ?v)") (auto simp: SCI_GETLINECOUNT_def)
  then have "(if SCI_GETLENGTH ?v \<noteq> 0 then SCI_GETLINECOUNT ?v else 0) \<le> SCI_GETLINECOUNT ?v"
    by simp
  with assms show ?thesis
    by (auto simp: sectionLen_def Let_def split: if_splits)
qed

lemma neverCancelled_SetMaxCount: "neverCancelled (SetMaxCount n w) = neverCancelled w"
  by (simp add: neverCancelled_def SetMaxCount_def)

lemma getView_SetMaxCount: "getView (SetMaxCount n w) view = getView w view"
  by (simp add: getView_def SetMaxCount_def)

lemma computeLineHashes_never:
  assumes nc: "neverCancelled w" and off0: "0 \<le> off (d_section doc)"
    and n0: "0 \<le> sectionLen doc w"
  shows "\<exists>w'. computeLineHashes doc settings w =
     (let n = sectionLen doc w;
          full = map (\<lambda>k. lineHashOf settings
                             (splitLines (v_text (getView w (d_view doc))) ! nat (off (d_section doc) + int k)))
                   [0..<nat n]
      in if n \<noteq> 0 \<and> last full = cHashSeed
         then (Inr (butlast full, doc\<lparr>d_section := (d_section doc)\<lparr>len := n - 1\<rparr>\<rparr>), w')
         else (Inr (full, doc\<lparr>d_section := (d_section doc)\<lparr>len := n\<rparr>\<rparr>), w'))"
proof -
  let ?v = "getView w (d_view doc)"
  let ?n = "sectionLen doc w"
  let ?sec = "d_section doc"
  let ?w1 = "if p_open (progress w) then SetMaxCount (cdiv ?n 500 + 1) w else w"
  let ?full = "map (\<lambda>k. lineHashOf settings (splitLines (v_text ?v) ! nat (off ?sec + int k))) [0..<nat ?n]"
  have nc1: "neverCancelled ?w1" using nc by (simp add: neverCancelled_SetMaxCount)
  have gv: "getView ?w1 (d_view doc) = ?v" by (simp add: getView_SetMaxCount)
  have hl: "map (\<lambda>k. hashLine settings ?v (k + off ?sec)) (map int [0..<nat ?n]) = ?full"
  proof -
    have "\<And>k. k < nat ?n \<Longrightarrow>
            hashLine settings ?v (int k + off ?sec)
              = lineHashOf settings (splitLines (v_text ?v) ! nat (off ?sec + int k))"
    proof -
      fix k assume "k < nat ?n"
      then have "int k < ?n" by simp
      from sectionLen_in_range [OF off0 this]
      show "hashLine settings ?v (int k + off ?sec)
              = lineHashOf settings (splitLines (v_text ?v) ! nat (off ?sec + int k))"
        by (simp add: hashLine_in_range add.commute)
    qed
    then show ?thesis by simp
  qed
  have loop: "hashLoop settings (d_view doc) (off ?sec) (map int [0..<nat ?n]) [] ?w1 = (Some ?full, ?w1)"
    using hashLoop_never [OF nc1, of settings "d_view doc" "off ?sec" "map int [0..<nat ?n]" "[]"]
    unfolding gv hl by simp
  have sec1: "(if len ?sec \<le> 0 \<or> off ?sec + len ?sec >
                   (if SCI_GETLENGTH ?v \<noteq> 0 then SCI_GETLINECOUNT ?v else SCI_GETLENGTH ?v)
               then ?sec\<lparr>len := (if SCI_GETLENGTH ?v \<noteq> 0 then SCI_GETLINECOUNT ?v else SCI_GETLENGTH ?v) - off ?sec\<rparr>
               else ?sec) = ?sec\<lparr>len := ?n\<rparr>"
    by (auto simp: sectionLen_def Let_def)
  show ?thesis
  proof (cases "p_open (progress w)")
    case True
    with loop have "hashLoop settings (d_view doc) (off ?sec) (map int [0..<nat ?n]) []
                      (SetMaxCount (cdiv ?n 500 + 1) w) = (Some ?full, SetMaxCount (cdiv ?n 500 + 1) w)"
      by simp
    with n0 True show ?thesis
      unfolding computeLineHashes_def Let_def sec1
      by (intro exI [of _ "SetMaxCount (cdiv ?n 500 + 1) w"]) simp
  next
    case False
    with loop have "hashLoop settings (d_view doc) (off ?sec) (map int [0..<nat ?n]) [] w = (Some ?full, w)"
      by simp
    with n0 False show ?thesis
      unfolding computeLineHashes_def Let_def sec1
      by (intro exI [of _ w]) simp
  qed
qed


lemma computeLineHashes_negative:
  "sectionLen doc w < 0 \<Longrightarrow> \<exists>w'. computeLineHashes doc settings w = (Inl (Exception ''vector too long''), w')"
proof -
  assume neg: "sectionLen doc w < 0"
  let ?v = "getView w (d_view doc)"
  let ?sec = "d_section doc"
  have sec1: "(if len ?sec \<le> 0 \<or> off ?sec + len ?sec >
                   (if SCI_GETLENGTH ?v \<noteq> 0 then SCI_GETLINECOUNT ?v else SCI_GETLENGTH ?v)
               then ?sec\<lparr>len := (if SCI_GETLENGTH ?v \<noteq> 0 then SCI_GETLINECOUNT ?v else SCI_GETLENGTH ?v) - off ?sec\<rparr>
               else ?sec) = ?sec\<lparr>len := sectionLen doc w\<rparr>"
    by (auto simp: sectionLen_def Let_def)
  from neg show ?thesis
    unfolding computeLineHashes_def Let_def sec1 by simp
qed

text \<open>
  C10. When hashing is not cancelled, \<open>computeLineHashes\<close> returns the hash of every
  line of the section, in order, except that a last line hashing to the seed value
  is dropped from a non-empty section and the section length is decremented by one.
  Only the last entry is ever dropped: every returned entry is the hash of the line
  at its index, so blank lines before the last one stay. Both \<open>runCompare\<close> and
  \<open>runFindUnique\<close> take their hash sequences from this function.
\<close>

theorem trailing_blank_line_trimmed:
  assumes nc: "neverCancelled w" and off0: "0 \<le> off (d_section doc)"
    and run: "computeLineHashes doc settings w = (Inr (lineHashes, doc'), w')"
  shows "let n = sectionLen doc w;
             docLines = splitLines (v_text (getView w (d_view doc)));
             full = map (\<lambda>k. lineHashOf settings (docLines ! nat (off (d_section doc) + int k)))
                      [0..<nat n]
         in (if n \<noteq> 0 \<and> last full = cHashSeed
             then lineHashes = butlast full \<and> len (d_section doc') = n - 1
             else lineHashes = full \<and> len (d_section doc') = n)
            \<and> off (d_section doc') = off (d_section doc)
            \<and> (\<forall>i < length lineHashes.
                  lineHashes ! i = lineHashOf settings (docLines ! nat (off (d_section doc) + int i)))"
proof -
  have n0: "0 \<le> sectionLen doc w"
  proof (rule ccontr)
    assume "\<not> 0 \<le> sectionLen doc w"
    then have "sectionLen doc w < 0" by simp
    from computeLineHashes_negative [OF this, of settings] run show False by auto
  qed
  let ?n = "sectionLen doc w"
  let ?full = "map (\<lambda>k. lineHashOf settings
                     (splitLines (v_text (getView w (d_view doc))) ! nat (off (d_section doc) + int k)))
                 [0..<nat ?n]"
  from computeLineHashes_never [OF nc off0 n0, of settings] run
  have res: "if ?n \<noteq> 0 \<and> last ?full = cHashSeed
             then lineHashes = butlast ?full \<and> doc' = doc\<lparr>d_section := (d_section doc)\<lparr>len := ?n - 1\<rparr>\<rparr>
             else lineHashes = ?full \<and> doc' = doc\<lparr>d_section := (d_section doc)\<lparr>len := ?n\<rparr>\<rparr>"
    by (auto simp: Let_def split: if_splits)
  have nth: "\<forall>i < length lineHashes. lineHashes ! i = ?full ! i \<and> i < length ?full"
    using res by (auto simp: nth_butlast split: if_splits)
  have "\<forall>i < length lineHashes.
          lineHashes ! i = lineHashOf settings
             (splitLines (v_text (getView w (d_view doc))) ! nat (off (d_section doc) + int i))"
  proof (intro allI impI)
    fix i assume "i < length lineHashes"
    with nth have a: "lineHashes ! i = ?full ! i" and b: "i < length ?full" by auto
    from b have "i < nat ?n" by simp
    then show "lineHashes ! i = lineHashOf settings
             (splitLines (v_text (getView w (d_view doc))) ! nat (off (d_section doc) + int i))"
      unfolding a by simp
  qed
  with res show ?thesis
    by (auto simp: Let_def split: if_splits)
qed

theorem trailing_blank_line_trimmed_witness:
  "neverCancelled (worldOf [0x61, 0x0A, 0x0A, 0x62, 0x0A] [] None)
   \<and> 0 \<le> off (d_section (docOf MAIN_VIEW 0 0))
   \<and> fst (computeLineHashes (docOf MAIN_VIEW 0 0) (settingsOf False False False)
             (worldOf [0x61, 0x0A, 0x0A, 0x62, 0x0A] [] None))
       = Inr ([2459885552586058892, cHashSeed, 2459888851120943525], docOf MAIN_VIEW 0 3)
   \<and> sectionLen (docOf MAIN_VIEW 0 0) (worldOf [0x61, 0x0A, 0x0A, 0x62, 0x0A] [] None) = 4
   \<and> lineHashOf (settingsOf False False False) [] = cHashSeed"
proof -
  let ?W = "worldOf [0x61, 0x0A, 0x0A, 0x62, 0x0A] [] None"
  let ?D = "docOf MAIN_VIEW 0 0"
  let ?S = "settingsOf False False False"
  have nc: "neverCancelled ?W" by code_simp
  have off0: "0 \<le> off (d_section ?D)" by code_simp
  have ev: "fst (computeLineHashes ?D ?S ?W)
              = Inr ([2459885552586058892, cHashSeed, 2459888851120943525], docOf MAIN_VIEW 0 3)"
    by code_simp
  then obtain w' where run: "computeLineHashes ?D ?S ?W
              = (Inr ([2459885552586058892, cHashSeed, 2459888851120943525], docOf MAIN_VIEW 0 3), w')"
    by (cases "computeLineHashes ?D ?S ?W") auto
  have n: "sectionLen ?D ?W = 4" by code_simp
  have b: "lineHashOf ?S [] = cHashSeed" by code_simp
  from trailing_blank_line_trimmed [OF nc off0 run] nc off0 ev n b show ?thesis
    by simp
qed

subsection \<open>Tokenizer: the words of the lines of a block\<close>

lemma getWords_lines:
  assumes "0 \<le> lineOffset" "lineOffset + lineCount \<le> SCI_GETLINECOUNT v"
  shows "getWords lineOffset lineCount v st =
           (if lineCount < 0 then Inl (Exception ''vector too long'')
            else Inr (map (\<lambda>k. lineWords st (int k)
                                 (splitLines (v_text v) ! nat (lineOffset + int k) @ [0]))
                        [0..<nat lineCount]))"
proof -
  have "\<And>k. k < nat lineCount \<Longrightarrow>
          getText v (SCI_POSITIONFROMLINE v (int k + lineOffset)) (SCI_GETLINEENDPOSITION v (int k + lineOffset))
            = splitLines (v_text v) ! nat (lineOffset + int k) @ [0]"
  proof -
    fix k assume "k < nat lineCount"
    with assms have "0 \<le> int k + lineOffset" "int k + lineOffset < SCI_GETLINECOUNT v" by auto
    from getText_line [OF this] show "getText v (SCI_POSITIONFROMLINE v (int k + lineOffset))
            (SCI_GETLINEENDPOSITION v (int k + lineOffset))
            = splitLines (v_text v) ! nat (lineOffset + int k) @ [0]"
      by (simp add: add.commute)
  qed
  then show ?thesis
    unfolding getWords_def Let_def by (simp add: map_idI)
qed

lemma lineBody_line:
  "lineBody s (l @ [0]) = (if IgnoreCase s then toLowerCase l else l)"
  by (simp add: lineBody_def toLowerCase_def)

text \<open>
  C7. \<open>getCharType\<close> classifies a byte as SPACE exactly when it is 0x20 or 0x09, as
  ALNUM exactly when it is an ASCII digit or letter or the underscore, and as OTHER
  otherwise. For a block of \<open>lineCount\<close> lines of a document that start at line
  \<open>lineOffset\<close>, \<open>getWords\<close> without IgnoreSpaces returns one word vector per line,
  and the vector of line \<open>k\<close> of the block is the list of the maximal same-class runs
  of the bytes of that line of the document, in order (case folding does not change
  the class of any byte); with IgnoreSpaces it returns the same vectors without
  their SPACE words.
\<close>

theorem tokenizer_classes_and_runs:
  assumes "0 \<le> lineOffset" "0 \<le> lineCount" "lineOffset + lineCount \<le> SCI_GETLINECOUNT v"
  shows "getCharType b =
     (if b = 0x20 \<or> b = 0x09 then SPACECHAR
      else if (0x30 \<le> b \<and> b \<le> 0x39) \<or> (0x41 \<le> b \<and> b \<le> 0x5A) \<or> (0x61 \<le> b \<and> b \<le> 0x7A)
              \<or> b = 0x5F then ALPHANUMCHAR
      else OTHERCHAR)
   \<and> (\<exists>chunk. getWords lineOffset lineCount v (s\<lparr>IgnoreSpaces := False\<rparr>) = Inr chunk
        \<and> length chunk = nat lineCount
        \<and> (\<forall>k < nat lineCount.
              maximalRunsOf
                (if IgnoreCase s then toLowerCase (splitLines (v_text v) ! nat (lineOffset + int k))
                 else splitLines (v_text v) ! nat (lineOffset + int k))
                (int k) 0 (chunk ! k)
              \<and> map getCharType (toLowerCase (splitLines (v_text v) ! nat (lineOffset + int k)))
                  = map getCharType (splitLines (v_text v) ! nat (lineOffset + int k)))
        \<and> getWords lineOffset lineCount v (s\<lparr>IgnoreSpaces := True\<rparr>)
            = Inr (map (filter (\<lambda>w. w_type w \<noteq> SPACECHAR)) chunk))"
proof -
  let ?line = "\<lambda>k. splitLines (v_text v) ! nat (lineOffset + int k)"
  let ?chunk = "map (\<lambda>k. lineWords (s\<lparr>IgnoreSpaces := False\<rparr>) (int k) (?line k @ [0])) [0..<nat lineCount]"
  have a: "getWords lineOffset lineCount v (s\<lparr>IgnoreSpaces := False\<rparr>) = Inr ?chunk"
    using assms by (simp add: getWords_lines)
  have b: "getWords lineOffset lineCount v (s\<lparr>IgnoreSpaces := True\<rparr>)
             = Inr (map (filter (\<lambda>w. w_type w \<noteq> SPACECHAR)) ?chunk)"
    using assms by (simp add: getWords_lines lineWords_ignoreSpaces o_def)
  have c: "\<forall>k < nat lineCount.
              maximalRunsOf (if IgnoreCase s then toLowerCase (?line k) else ?line k) (int k) 0 (?chunk ! k)
              \<and> map getCharType (toLowerCase (?line k)) = map getCharType (?line k)"
  proof (intro allI impI)
    fix k assume k: "k < nat lineCount"
    from lineWords_runs [of s "?line k @ [0]" "int k"]
    have "maximalRunsOf (if IgnoreCase s then toLowerCase (?line k) else ?line k) (int k) 0
            (lineWords (s\<lparr>IgnoreSpaces := False\<rparr>) (int k) (?line k @ [0]))"
      unfolding lineBody_line .
    with k show "maximalRunsOf (if IgnoreCase s then toLowerCase (?line k) else ?line k) (int k) 0 (?chunk ! k)
              \<and> map getCharType (toLowerCase (?line k)) = map getCharType (?line k)"
      by (simp add: classes_toLowerCase del: maximalRunsOf.simps)
  qed
  have d: "getCharType b =
     (if b = 0x20 \<or> b = 0x09 then SPACECHAR
      else if (0x30 \<le> b \<and> b \<le> 0x39) \<or> (0x41 \<le> b \<and> b \<le> 0x5A) \<or> (0x61 \<le> b \<and> b \<le> 0x7A)
              \<or> b = 0x5F then ALPHANUMCHAR
      else OTHERCHAR)"
    by (simp add: getCharType_def IsCharAlphaNumericA_def)
  have e: "length ?chunk = nat lineCount" by simp
  from a b c d e show ?thesis by blast
qed

theorem tokenizer_classes_and_runs_witness:
  "0 \<le> (0::int) \<and> 0 \<le> (2::int) \<and> 0 + 2 \<le> SCI_GETLINECOUNT (viewOf [0x41, 0x20, 0x2B, 0x62, 0x0A, 0x63, 0x5F, 0x09])
   \<and> getCharType 0x5F = ALPHANUMCHAR
   \<and> map (map (\<lambda>w. (w_type w, w_line w, w_pos w, w_length w)))
       (projr (getWords 0 2 (viewOf [0x41, 0x20, 0x2B, 0x62, 0x0A, 0x63, 0x5F, 0x09])
          (settingsOf True False False)))
       = [[(ALPHANUMCHAR, 0, 0, 1), (SPACECHAR, 0, 1, 1), (OTHERCHAR, 0, 2, 1), (ALPHANUMCHAR, 0, 3, 1)],
          [(ALPHANUMCHAR, 1, 0, 2), (SPACECHAR, 1, 2, 1)]]
   \<and> (\<exists>chunk. getWords 0 2 (viewOf [0x41, 0x20, 0x2B, 0x62, 0x0A, 0x63, 0x5F, 0x09])
                 (settingsOf True False False) = Inr chunk
        \<and> maximalRunsOf [0x61, 0x20, 0x2B, 0x62] 0 0 (chunk ! 0)
        \<and> maximalRunsOf [0x63, 0x5F, 0x09] 1 0 (chunk ! 1)
        \<and> getWords 0 2 (viewOf [0x41, 0x20, 0x2B, 0x62, 0x0A, 0x63, 0x5F, 0x09])
            (settingsOf True True False) = Inr (map (filter (\<lambda>w. w_type w \<noteq> SPACECHAR)) chunk))"
proof -
  let ?V = "viewOf [0x41, 0x20, 0x2B, 0x62, 0x0A, 0x63, 0x5F, 0x09]"
  let ?S = "settingsOf True False False"
  have h1: "0 \<le> (0::int)" and h2: "0 \<le> (2::int)" by simp_all
  have h3: "0 + 2 \<le> SCI_GETLINECOUNT ?V" by code_simp
  have s1: "?S\<lparr>IgnoreSpaces := False\<rparr> = ?S" by code_simp
  have s2: "?S\<lparr>IgnoreSpaces := True\<rparr> = settingsOf True True False" by code_simp
  have ic: "IgnoreCase ?S" by code_simp
  have l0: "toLowerCase (splitLines (v_text ?V) ! nat (0 + int 0)) = [0x61, 0x20, 0x2B, 0x62]" by code_simp
  have l1: "toLowerCase (splitLines (v_text ?V) ! nat (0 + int 1)) = [0x63, 0x5F, 0x09]" by code_simp
  have ev: "map (map (\<lambda>w. (w_type w, w_line w, w_pos w, w_length w))) (projr (getWords 0 2 ?V ?S))
       = [[(ALPHANUMCHAR, 0, 0, 1), (SPACECHAR, 0, 1, 1), (OTHERCHAR, 0, 2, 1), (ALPHANUMCHAR, 0, 3, 1)],
          [(ALPHANUMCHAR, 1, 0, 2), (SPACECHAR, 1, 2, 1)]]" by code_simp
  from tokenizer_classes_and_runs [OF h1 h2 h3, of "0x5F" ?S]
  obtain chunk where c: "getWords 0 2 ?V ?S = Inr chunk"
    and r: "\<forall>k < nat 2. maximalRunsOf
                (if IgnoreCase ?S then toLowerCase (splitLines (v_text ?V) ! nat (0 + int k))
                 else splitLines (v_text ?V) ! nat (0 + int k)) (int k) 0 (chunk ! k)
              \<and> map getCharType (toLowerCase (splitLines (v_text ?V) ! nat (0 + int k)))
                  = map getCharType (splitLines (v_text ?V) ! nat (0 + int k))"
    and f: "getWords 0 2 ?V (settingsOf True True False)
              = Inr (map (filter (\<lambda>w. w_type w \<noteq> SPACECHAR)) chunk)"
    and g: "getCharType 0x5F = ALPHANUMCHAR"
    unfolding s1 s2 by auto
  from r have "maximalRunsOf (if IgnoreCase ?S then toLowerCase (splitLines (v_text ?V) ! nat (0 + int 0))
                 else splitLines (v_text ?V) ! nat (0 + int 0)) (int 0) 0 (chunk ! 0)"
    by (metis (no_types, lifting) nat_numeral zero_less_numeral)
  then have r0: "maximalRunsOf [0x61, 0x20, 0x2B, 0x62] 0 0 (chunk ! 0)"
    unfolding l0 using ic by (simp del: maximalRunsOf.simps)
  from r have "maximalRunsOf (if IgnoreCase ?S then toLowerCase (splitLines (v_text ?V) ! nat (0 + int 1))
                 else splitLines (v_text ?V) ! nat (0 + int 1)) (int 1) 0 (chunk ! 1)"
    by (metis (no_types, lifting) nat_numeral one_less_numeral_iff semiring_norm(76))
  then have r1: "maximalRunsOf [0x63, 0x5F, 0x09] 1 0 (chunk ! 1)"
    unfolding l1 using ic by (simp del: maximalRunsOf.simps)
  from h1 h2 h3 g ev c r0 r1 f show ?thesis by blast
qed

subsection \<open>FindUnique\<close>

lemma map_of_emplaceLine:
  "map_of (emplaceLine m h i) k =
     (if k = h then Some ((case map_of m h of None \<Rightarrow> [] | Some ls \<Rightarrow> ls) @ [i]) else map_of m k)"
  by (induction m h i rule: emplaceLine.induct) auto

lemma map_of_foldl_emplaceLine:
  "map_of (foldl (\<lambda>m i. emplaceLine m (hs ! i) (int i)) m0 idx) k =
     (if filter (\<lambda>i. hs ! i = k) idx = [] then map_of m0 k
      else Some ((case map_of m0 k of None \<Rightarrow> [] | Some ls \<Rightarrow> ls)
                   @ map int (filter (\<lambda>i. hs ! i = k) idx)))"
proof (induction idx arbitrary: m0)
  case Nil
  then show ?case by simp
next
  case (Cons i idx)
  show ?case
    by (simp add: Cons.IH map_of_emplaceLine)
qed

lemma emplaceLine_keys: "fst ` set (emplaceLine m h i) = insert h (fst ` set m)"
  by (induction m h i rule: emplaceLine.induct) auto

lemma emplaceLine_distinct: "distinct (map fst m) \<Longrightarrow> distinct (map fst (emplaceLine m h i))"
  by (induction m h i rule: emplaceLine.induct) (auto simp: emplaceLine_keys)

lemma foldl_emplaceLine_distinct:
  "distinct (map fst m0) \<Longrightarrow> distinct (map fst (foldl (\<lambda>m i. emplaceLine m (hs ! i) (int i)) m0 idx))"
  by (induction idx arbitrary: m0) (simp_all add: emplaceLine_distinct)

lemma uniqueLinesMap_distinct: "distinct (map fst (uniqueLinesMap hs))"
  unfolding uniqueLinesMap_def by (rule foldl_emplaceLine_distinct) simp

lemma uniqueLinesMap_entry:
  "(h, ls) \<in> set (uniqueLinesMap hs)
     \<longleftrightarrow> h \<in> set hs \<and> ls = map int (filter (\<lambda>i. hs ! i = h) [0..<length hs])"
proof -
  have m: "map_of (uniqueLinesMap hs) h =
     (if h \<in> set hs then Some (map int (filter (\<lambda>i. hs ! i = h) [0..<length hs])) else None)"
  proof -
    have "(filter (\<lambda>i. hs ! i = h) [0..<length hs] = []) = (h \<notin> set hs)"
      by (auto simp: filter_empty_conv in_set_conv_nth)
    then show ?thesis
      unfolding uniqueLinesMap_def map_of_foldl_emplaceLine by auto
  qed
  have "(h, ls) \<in> set (uniqueLinesMap hs) \<longleftrightarrow> map_of (uniqueLinesMap hs) h = Some ls"
    using uniqueLinesMap_distinct [of hs] by simp
  with m show ?thesis by auto
qed

lemma uniqueLinesMap_keys: "fst ` set (uniqueLinesMap hs) = set hs"
proof -
  have "\<And>h. h \<in> fst ` set (uniqueLinesMap hs) \<longleftrightarrow> h \<in> set hs"
  proof -
    fix h
    have "h \<in> fst ` set (uniqueLinesMap hs) \<longleftrightarrow> (\<exists>ls. (h, ls) \<in> set (uniqueLinesMap hs))"
      by force
    then show "h \<in> fst ` set (uniqueLinesMap hs) \<longleftrightarrow> h \<in> set hs"
      by (simp add: uniqueLinesMap_entry)
  qed
  then show ?thesis by blast
qed

lemma markers_ADDSET:
  "v_markers (SCI_MARKERADDSET k msk v) n = (if n = k then v_markers v n OR msk else v_markers v n)"
  by (simp add: SCI_MARKERADDSET_def)

lemma markLines_markers:
  "v_markers (markLines secOff msk ns v) n
     = (if n - secOff \<in> set ns then v_markers v n OR msk else v_markers v n)"
proof (induction ns arbitrary: v)
  case Nil
  then show ?case by simp
next
  case (Cons a ns)
  have "(v_markers v n OR msk) OR msk = v_markers v n OR msk"
    by (simp add: or.assoc)
  then show ?case
    by (auto simp: Cons.IH markers_ADDSET)
qed

lemma foldl_markLines_markers:
  "v_markers (foldl (\<lambda>v e. markLines secOff msk (snd e) v) v es) n
     = (if \<exists>e \<in> set es. n - secOff \<in> set (snd e) then v_markers v n OR msk else v_markers v n)"
proof (induction es arbitrary: v)
  case Nil
  then show ?case by simp
next
  case (Cons e es)
  have "(v_markers v n OR msk) OR msk = v_markers v n OR msk"
    by (simp add: or.assoc)
  then show ?case
    by (auto simp: Cons.IH markLines_markers)
qed

lemma uniqueLoop_result:
  assumes "distinct (map fst m1)"
    and "uniqueLoop m1 m2 secOff msk cnt v = (rest, cnt', v')"
  shows "rest = filter (\<lambda>e. fst e \<notin> fst ` set m1) m2
       \<and> cnt \<le> cnt'
       \<and> (cnt' = cnt \<longleftrightarrow> (\<forall>e \<in> set m1. fst e \<in> fst ` set m2 \<or> snd e = []))
       \<and> (\<forall>n. v_markers v' n =
                (if \<exists>e \<in> set m1. fst e \<notin> fst ` set m2 \<and> n - secOff \<in> set (snd e)
                 then v_markers v n OR msk else v_markers v n))"
  using assms
proof (induction m1 arbitrary: m2 cnt v)
  case Nil
  then show ?case by simp
next
  case (Cons e m1)
  obtain h ls where e: "e = (h, ls)" by (cases e) auto
  from Cons.prems(1) e have d: "distinct (map fst m1)" and hn: "h \<notin> fst ` set m1" by auto
  show ?case
  proof (cases "h \<in> fst ` set m2")
    case True
    let ?m2 = "filter (\<lambda>e. fst e \<noteq> h) m2"
    from Cons.prems(2) e True have run: "uniqueLoop m1 ?m2 secOff msk cnt v = (rest, cnt', v')"
      by simp
    have keys: "\<And>k. k \<noteq> h \<Longrightarrow> k \<in> fst ` set ?m2 \<longleftrightarrow> k \<in> fst ` set m2" by force
    have keys1: "\<And>x. x \<in> set m1 \<Longrightarrow> fst x \<in> fst ` set ?m2 \<longleftrightarrow> fst x \<in> fst ` set m2"
    proof -
      fix x assume "x \<in> set m1"
      with hn have "fst x \<noteq> h" by force
      then show "fst x \<in> fst ` set ?m2 \<longleftrightarrow> fst x \<in> fst ` set m2" by (rule keys)
    qed
    from Cons.IH [OF d run]
    have r1: "rest = filter (\<lambda>e. fst e \<notin> fst ` set m1) ?m2" and r2: "cnt \<le> cnt'"
      and r3: "cnt' = cnt \<longleftrightarrow> (\<forall>e \<in> set m1. fst e \<in> fst ` set ?m2 \<or> snd e = [])"
      and r4: "\<forall>n. v_markers v' n =
                (if \<exists>e \<in> set m1. fst e \<notin> fst ` set ?m2 \<and> n - secOff \<in> set (snd e)
                 then v_markers v n OR msk else v_markers v n)"
      by blast+
    have a1: "rest = filter (\<lambda>x. fst x \<notin> fst ` set (e # m1)) m2"
      unfolding r1 e by (auto intro: filter_cong)
    have a3: "cnt' = cnt \<longleftrightarrow> (\<forall>x \<in> set (e # m1). fst x \<in> fst ` set m2 \<or> snd x = [])"
      unfolding r3 using True e keys1 by auto
    have a4: "\<forall>n. v_markers v' n =
                (if \<exists>x \<in> set (e # m1). fst x \<notin> fst ` set m2 \<and> n - secOff \<in> set (snd x)
                 then v_markers v n OR msk else v_markers v n)"
    proof
      fix n
      have "(\<exists>x \<in> set (e # m1). fst x \<notin> fst ` set m2 \<and> n - secOff \<in> set (snd x))
              \<longleftrightarrow> (\<exists>x \<in> set m1. fst x \<notin> fst ` set ?m2 \<and> n - secOff \<in> set (snd x))"
        using True e keys1 by auto
      with r4 show "v_markers v' n =
                (if \<exists>x \<in> set (e # m1). fst x \<notin> fst ` set m2 \<and> n - secOff \<in> set (snd x)
                 then v_markers v n OR msk else v_markers v n)"
        by simp
    qed
    from a1 r2 a3 a4 show ?thesis by blast
  next
    case False
    let ?v = "markLines secOff msk ls v"
    from Cons.prems(2) e False
    have run: "uniqueLoop m1 m2 secOff msk (cnt + int (length ls)) ?v = (rest, cnt', v')"
      by simp
    from Cons.IH [OF d run]
    have r1: "rest = filter (\<lambda>e. fst e \<notin> fst ` set m1) m2" and r2: "cnt + int (length ls) \<le> cnt'"
      and r3: "cnt' = cnt + int (length ls) \<longleftrightarrow> (\<forall>e \<in> set m1. fst e \<in> fst ` set m2 \<or> snd e = [])"
      and r4: "\<forall>n. v_markers v' n =
                (if \<exists>e \<in> set m1. fst e \<notin> fst ` set m2 \<and> n - secOff \<in> set (snd e)
                 then v_markers ?v n OR msk else v_markers ?v n)"
      by blast+
    have a1: "rest = filter (\<lambda>x. fst x \<notin> fst ` set (e # m1)) m2"
      unfolding r1 using False e by (auto intro: filter_cong)
    have a2: "cnt \<le> cnt'" using r2 by simp
    have a3: "cnt' = cnt \<longleftrightarrow> (\<forall>x \<in> set (e # m1). fst x \<in> fst ` set m2 \<or> snd x = [])"
    proof (cases "ls = []")
      case True
      with r3 e False show ?thesis by auto
    next
      case nonempty: False
      then have "0 < length ls" by simp
      with r2 have "cnt' \<noteq> cnt" by linarith
      with nonempty e False show ?thesis by auto
    qed
    have idem: "\<And>x. (x OR msk) OR msk = x OR msk" by (simp add: or.assoc)
    have a4: "\<forall>n. v_markers v' n =
                (if \<exists>x \<in> set (e # m1). fst x \<notin> fst ` set m2 \<and> n - secOff \<in> set (snd x)
                 then v_markers v n OR msk else v_markers v n)"
    proof
      fix n
      show "v_markers v' n =
                (if \<exists>x \<in> set (e # m1). fst x \<notin> fst ` set m2 \<and> n - secOff \<in> set (snd x)
                 then v_markers v n OR msk else v_markers v n)"
        using r4 [rule_format, of n] False e idem
        by (auto simp: markLines_markers)
    qed
    from a1 a2 a3 a4 show ?thesis by blast
  qed
qed

lemma phaseCancelled_never_eq: "neverCancelled w \<Longrightarrow> phaseCancelled w = (False, w)"
  by (auto simp: phaseCancelled_def NextPhase_def neverCancelled_def Advance_never)

lemma sectionLen_cong:
  "d_view d = d_view d' \<Longrightarrow> d_section d = d_section d' \<Longrightarrow> getView w (d_view d) = getView w' (d_view d)
   \<Longrightarrow> sectionLen d w = sectionLen d' w'"
  by (simp add: sectionLen_def)

lemma computeLineHashes_sectionHashes:
  assumes nc: "neverCancelled w" and off0: "0 \<le> off sec"
    and n0: "0 \<le> sectionLen (docOf view (off sec) (len sec)) w"
  shows "\<exists>l w'. computeLineHashes \<lparr>d_view = view, d_section = sec, d_blockDiffMask = m\<rparr> settings w
           = (Inr (sectionHashes settings view sec w,
                   \<lparr>d_view = view, d_section = sec\<lparr>len := l\<rparr>, d_blockDiffMask = m\<rparr>), w')
         \<and> neverCancelled w' \<and> mainView w' = mainView w \<and> subView w' = subView w"
proof -
  let ?doc = "\<lparr>d_view = view, d_section = sec, d_blockDiffMask = m\<rparr>"
  define n where "n = sectionLen (docOf view (off sec) (len sec)) w"
  define full where "full = map (\<lambda>k. lineHashOf settings
                             (splitLines (v_text (getView w view)) ! nat (off sec + int k))) [0..<nat n]"
  define w1 where "w1 = (if p_open (progress w) then SetMaxCount (cdiv n 500 + 1) w else w)"
  have sl: "sectionLen ?doc w = n"
    by (simp add: sectionLen_def docOf_def Let_def n_def)
  have a: "0 \<le> off (d_section ?doc)" "0 \<le> sectionLen ?doc w"
    using off0 n0 sl by (simp_all add: n_def)
  note cn = computeLineHashes_never [OF nc a, of settings, unfolded Let_def sl, simplified]
  from cn have r: "\<exists>w'. computeLineHashes ?doc settings w =
      (if n \<noteq> 0 \<and> last full = cHashSeed
         then (Inr (butlast full, \<lparr>d_view = view, d_section = sec\<lparr>len := n - 1\<rparr>, d_blockDiffMask = m\<rparr>), w')
         else (Inr (full, \<lparr>d_view = view, d_section = sec\<lparr>len := n\<rparr>, d_blockDiffMask = m\<rparr>), w'))"
    unfolding full_def by (auto split: if_splits)
  have w1: "snd (computeLineHashes ?doc settings w) = w1"
  proof -
    have nc1: "neverCancelled w1" using nc by (simp add: w1_def neverCancelled_SetMaxCount)
    have sec1: "(if len sec \<le> 0 \<or> off sec + len sec >
                   (if SCI_GETLENGTH (getView w view) \<noteq> 0 then SCI_GETLINECOUNT (getView w view)
                    else SCI_GETLENGTH (getView w view))
               then sec\<lparr>len := (if SCI_GETLENGTH (getView w view) \<noteq> 0 then SCI_GETLINECOUNT (getView w view)
                    else SCI_GETLENGTH (getView w view)) - off sec\<rparr>
               else sec) = sec\<lparr>len := n\<rparr>"
      by (auto simp: sectionLen_def Let_def n_def docOf_def)
    from n0 have nn: "\<not> n < 0" by (simp add: n_def)
    have l: "len (sec\<lparr>len := n\<rparr>) = n" "off (sec\<lparr>len := n\<rparr>) = off sec" by simp_all
    show ?thesis
      unfolding computeLineHashes_def Let_def
      apply (simp only: DocCmpInfo.simps sec1 l nn if_False w1_def [symmetric])
      apply (simp only: hashLoop_never [OF nc1] prod.case option.case)
      apply (simp split: if_splits)
      done
  qed
  have sh: "sectionHashes settings view sec w = (if n \<noteq> 0 \<and> last full = cHashSeed then butlast full else full)"
    unfolding sectionHashes_def Let_def full_def n_def ..
  from r w1 have r': "computeLineHashes ?doc settings w =
      (if n \<noteq> 0 \<and> last full = cHashSeed
         then (Inr (butlast full, \<lparr>d_view = view, d_section = sec\<lparr>len := n - 1\<rparr>, d_blockDiffMask = m\<rparr>), w1)
         else (Inr (full, \<lparr>d_view = view, d_section = sec\<lparr>len := n\<rparr>, d_blockDiffMask = m\<rparr>), w1))"
    by (auto split: if_splits)
  have f: "neverCancelled w1 \<and> mainView w1 = mainView w \<and> subView w1 = subView w"
    using nc by (auto simp: w1_def neverCancelled_def SetMaxCount_def)
  show ?thesis
  proof (cases "n \<noteq> 0 \<and> last full = cHashSeed")
    case True
    with r' sh f show ?thesis
      by (intro exI [of _ "n - 1"] exI [of _ w1]) simp
  next
    case False
    with r' sh f show ?thesis
      by (intro exI [of _ "n"] exI [of _ w1]) simp
  qed
qed

lemma residual_of_map:
  "(\<exists>e \<in> set (uniqueLinesMap hs). fst e \<notin> set other \<and> n - secOff \<in> set (snd e))
     \<longleftrightarrow> residualLine hs other secOff n"
proof
  assume "\<exists>e \<in> set (uniqueLinesMap hs). fst e \<notin> set other \<and> n - secOff \<in> set (snd e)"
  then obtain h ls where e: "(h, ls) \<in> set (uniqueLinesMap hs)" and h: "h \<notin> set other"
    and n: "n - secOff \<in> set ls" by auto
  from e have ls: "ls = map int (filter (\<lambda>i. hs ! i = h) [0..<length hs])"
    by (simp add: uniqueLinesMap_entry)
  with n obtain i where "i < length hs" "hs ! i = h" "n - secOff = int i" by auto
  with h show "residualLine hs other secOff n"
    unfolding residualLine_def by (intro bexI [of _ i]) auto
next
  assume "residualLine hs other secOff n"
  then obtain i where i: "i < length hs" "n = secOff + int i" "hs ! i \<notin> set other"
    by (auto simp: residualLine_def)
  let ?h = "hs ! i"
  let ?ls = "map int (filter (\<lambda>j. hs ! j = ?h) [0..<length hs])"
  from i have "(?h, ?ls) \<in> set (uniqueLinesMap hs)" by (simp add: uniqueLinesMap_entry)
  moreover from i have "n - secOff \<in> set ?ls" by auto
  ultimately show "\<exists>e \<in> set (uniqueLinesMap hs). fst e \<notin> set other \<and> n - secOff \<in> set (snd e)"
    using i by force
qed

lemma uniqueLinesMap_nonempty: "e \<in> set (uniqueLinesMap hs) \<Longrightarrow> snd e \<noteq> []"
proof -
  assume "e \<in> set (uniqueLinesMap hs)"
  then have "(fst e, snd e) \<in> set (uniqueLinesMap hs)" by simp
  from iffD1 [OF uniqueLinesMap_entry this]
  have h: "fst e \<in> set hs" and ls: "snd e = map int (filter (\<lambda>i. hs ! i = fst e) [0..<length hs])"
    by blast+
  from h obtain i where "i < length hs" "hs ! i = fst e" by (auto simp: in_set_conv_nth)
  then have "i \<in> set (filter (\<lambda>i. hs ! i = fst e) [0..<length hs])" by simp
  then have "filter (\<lambda>i. hs ! i = fst e) [0..<length hs] \<noteq> []" by (metis empty_iff empty_set)
  with ls show ?thesis by simp
qed

lemma sectionHashes_cong:
  "getView w' view = getView w view \<Longrightarrow> sectionHashes s view sec w' = sectionHashes s view sec w"
  by (simp add: sectionHashes_def sectionLen_def docOf_def)

lemma sectionLen_docOf_cong:
  "getView w' view = getView w view
   \<Longrightarrow> sectionLen (docOf view a b) w' = sectionLen (docOf view a b) w"
  by (simp add: sectionLen_def docOf_def)

text \<open>
  C2, as amended. In FindUnique mode, with any settings (IgnoreSpaces set or not),
  when nobody cancels: the run returns MATCH when the two hash sequences of line
  hashing hold the same hashes and MISMATCH otherwise, and it marks in each document
  exactly the lines of the section whose hash does not occur in the hash sequence
  of the other document. No hash is exempt: a line with the blank hash is in the
  maps and in the residual like any other line.
\<close>

theorem findUnique_residual_of_all_lines:
  assumes nc: "neverCancelled w" and off1: "0 \<le> off mainViewSection" and off2: "0 \<le> off subViewSection"
    and n1: "0 \<le> sectionLen (docOf MAIN_VIEW (off mainViewSection) (len mainViewSection)) w"
    and n2: "0 \<le> sectionLen (docOf SUB_VIEW (off subViewSection) (len subViewSection)) w"
  shows "\<exists>alignmentInfo w'.
     runFindUnique mm mainViewSection subViewSection settings w =
       (Inr (if set (sectionHashes settings MAIN_VIEW mainViewSection w)
                  = set (sectionHashes settings SUB_VIEW subViewSection w)
             then COMPARE_MATCH else COMPARE_MISMATCH, alignmentInfo), w')
     \<and> (\<forall>n. v_markers (mainView w') n =
              (if residualLine (sectionHashes settings MAIN_VIEW mainViewSection w)
                    (sectionHashes settings SUB_VIEW subViewSection w) (off mainViewSection) n
               then v_markers (mainView w) n OR
                      (if OldFileViewId settings = MAIN_VIEW
                       then MARKER_MASK_REMOVED mm else MARKER_MASK_ADDED mm)
               else v_markers (mainView w) n))
     \<and> (\<forall>n. v_markers (subView w') n =
              (if residualLine (sectionHashes settings SUB_VIEW subViewSection w)
                    (sectionHashes settings MAIN_VIEW mainViewSection w) (off subViewSection) n
               then v_markers (subView w) n OR
                      (if OldFileViewId settings = MAIN_VIEW
                       then MARKER_MASK_ADDED mm else MARKER_MASK_REMOVED mm)
               else v_markers (subView w) n))"
proof -
  define hs1 where "hs1 = sectionHashes settings MAIN_VIEW mainViewSection w"
  define hs2 where "hs2 = sectionHashes settings SUB_VIEW subViewSection w"
  define mask1 where "mask1 = (if OldFileViewId settings = MAIN_VIEW
                       then MARKER_MASK_REMOVED mm else MARKER_MASK_ADDED mm)"
  define mask2 where "mask2 = (if OldFileViewId settings = MAIN_VIEW
                       then MARKER_MASK_ADDED mm else MARKER_MASK_REMOVED mm)"
  have views: "MAIN_VIEW \<noteq> SUB_VIEW" by (simp add: MAIN_VIEW_def SUB_VIEW_def)
  from computeLineHashes_sectionHashes [OF nc off1 n1, of mask1 settings]
  obtain l1 w1 where c1: "computeLineHashes \<lparr>d_view = MAIN_VIEW, d_section = mainViewSection,
                             d_blockDiffMask = mask1\<rparr> settings w
           = (Inr (hs1, \<lparr>d_view = MAIN_VIEW, d_section = mainViewSection\<lparr>len := l1\<rparr>,
                         d_blockDiffMask = mask1\<rparr>), w1)"
    and nc1: "neverCancelled w1" and m1: "mainView w1 = mainView w" and s1: "subView w1 = subView w"
    unfolding hs1_def by blast
  have p1: "phaseCancelled w1 = (False, w1)" using nc1 by (rule phaseCancelled_never_eq)
  have gv1: "getView w1 SUB_VIEW = getView w SUB_VIEW" using s1 views by (simp add: getView_def)
  from n2 have n2': "0 \<le> sectionLen (docOf SUB_VIEW (off subViewSection) (len subViewSection)) w1"
    by (simp add: sectionLen_docOf_cong [OF gv1])
  from computeLineHashes_sectionHashes [OF nc1 off2 n2', of mask2 settings]
  obtain l2 w3 where c2: "computeLineHashes \<lparr>d_view = SUB_VIEW, d_section = subViewSection,
                             d_blockDiffMask = mask2\<rparr> settings w1
           = (Inr (hs2, \<lparr>d_view = SUB_VIEW, d_section = subViewSection\<lparr>len := l2\<rparr>,
                         d_blockDiffMask = mask2\<rparr>), w3)"
    and nc3: "neverCancelled w3" and m3: "mainView w3 = mainView w" and s3: "subView w3 = subView w"
    unfolding hs2_def sectionHashes_cong [OF gv1] m1 s1 by blast
  have p3: "phaseCancelled w3 = (False, w3)" using nc3 by (rule phaseCancelled_never_eq)
  define map1 where "map1 = uniqueLinesMap hs1"
  define map2 where "map2 = uniqueLinesMap hs2"
  obtain rest cnt v1 where ul: "uniqueLoop map1 map2 (off mainViewSection) mask1 0 (getView w3 MAIN_VIEW)
                                  = (rest, cnt, v1)"
    by (cases "uniqueLoop map1 map2 (off mainViewSection) mask1 0 (getView w3 MAIN_VIEW)") auto
  define w7 where "w7 = setView MAIN_VIEW v1 w3"
  define v2 where "v2 = foldl (\<lambda>v e. markLines (off subViewSection) mask2 (snd e) v)
                           (getView w7 SUB_VIEW) rest"
  define w8 where "w8 = setView SUB_VIEW v2 w7"
  define align where "align = defaultAlignmentPair
                              \<lparr>a_main := (a_main defaultAlignmentPair)\<lparr>a_line := off mainViewSection\<rparr>,
                               a_sub := (a_sub defaultAlignmentPair)\<lparr>a_line := off subViewSection\<rparr>\<rparr>"
  have run: "runFindUnique mm mainViewSection subViewSection settings w =
               (if cnt = 0 \<and> rest = [] then (Inr (COMPARE_MATCH, []), w7)
                else (Inr (COMPARE_MISMATCH, [align]), w8))"
    unfolding runFindUnique_def Let_def mask1_def [symmetric] mask2_def [symmetric]
    by (simp add: c1 p1 c2 p3 ul map1_def [symmetric] map2_def [symmetric]
          w7_def [symmetric] v2_def [symmetric] w8_def [symmetric] align_def [symmetric])
  have d1: "distinct (map fst map1)" unfolding map1_def by (rule uniqueLinesMap_distinct)
  have k1: "fst ` set map1 = set hs1" unfolding map1_def by (rule uniqueLinesMap_keys)
  have k2: "fst ` set map2 = set hs2" unfolding map2_def by (rule uniqueLinesMap_keys)
  from uniqueLoop_result [OF d1 ul]
  have r1: "rest = filter (\<lambda>e. fst e \<notin> set hs1) map2"
    and r3: "cnt = 0 \<longleftrightarrow> (\<forall>e \<in> set map1. fst e \<in> set hs2 \<or> snd e = [])"
    and r4: "\<forall>n. v_markers v1 n =
                (if \<exists>e \<in> set map1. fst e \<notin> set hs2 \<and> n - off mainViewSection \<in> set (snd e)
                 then v_markers (getView w3 MAIN_VIEW) n OR mask1 else v_markers (getView w3 MAIN_VIEW) n)"
    unfolding k1 k2 by blast+
  have cnt0: "cnt = 0 \<longleftrightarrow> set hs1 \<subseteq> set hs2"
  proof -
    have "(\<forall>e \<in> set map1. fst e \<in> set hs2 \<or> snd e = []) \<longleftrightarrow> (\<forall>e \<in> set map1. fst e \<in> set hs2)"
      using uniqueLinesMap_nonempty [of _ hs1] unfolding map1_def by blast
    also have "\<dots> \<longleftrightarrow> fst ` set map1 \<subseteq> set hs2" by blast
    finally show ?thesis unfolding r3 k1 .
  qed
  have rest0: "rest = [] \<longleftrightarrow> set hs2 \<subseteq> set hs1"
  proof -
    have "rest = [] \<longleftrightarrow> (\<forall>e \<in> set map2. fst e \<in> set hs1)"
      unfolding r1 by (simp add: filter_empty_conv)
    also have "\<dots> \<longleftrightarrow> fst ` set map2 \<subseteq> set hs1" by blast
    finally show ?thesis unfolding k2 .
  qed
  have res: "(cnt = 0 \<and> rest = []) \<longleftrightarrow> set hs1 = set hs2"
    using cnt0 rest0 by blast
  have gm3: "getView w3 MAIN_VIEW = mainView w" using m3 by (simp add: getView_def)
  have mk1: "\<forall>n. v_markers v1 n =
                (if residualLine hs1 hs2 (off mainViewSection) n
                 then v_markers (mainView w) n OR mask1 else v_markers (mainView w) n)"
    using r4 unfolding gm3 map1_def residual_of_map .
  have main7: "mainView w7 = v1" and sub7: "subView w7 = subView w"
    using views s3 by (simp_all add: w7_def setView_def)
  have main8: "mainView w8 = v1" and sub8: "subView w8 = v2"
    using views main7 by (simp_all add: w8_def setView_def)
  have rest_res: "\<And>n. (\<exists>e \<in> set rest. n - off subViewSection \<in> set (snd e))
                    \<longleftrightarrow> residualLine hs2 hs1 (off subViewSection) n"
  proof -
    fix n
    have "(\<exists>e \<in> set rest. n - off subViewSection \<in> set (snd e))
            \<longleftrightarrow> (\<exists>e \<in> set (uniqueLinesMap hs2). fst e \<notin> set hs1 \<and> n - off subViewSection \<in> set (snd e))"
      unfolding r1 map2_def by force
    then show "(\<exists>e \<in> set rest. n - off subViewSection \<in> set (snd e))
                    \<longleftrightarrow> residualLine hs2 hs1 (off subViewSection) n"
      unfolding residual_of_map .
  qed
  have gs7: "getView w7 SUB_VIEW = subView w" using views sub7 by (simp add: getView_def)
  have mk2: "\<forall>n. v_markers v2 n =
                (if residualLine hs2 hs1 (off subViewSection) n
                 then v_markers (subView w) n OR mask2 else v_markers (subView w) n)"
    unfolding v2_def foldl_markLines_markers gs7 rest_res by simp
  show ?thesis
  proof (cases "cnt = 0 \<and> rest = []")
    case True
    then have none: "\<And>n. \<not> residualLine hs2 hs1 (off subViewSection) n"
      using rest_res by simp
    from True res have eq: "set hs1 = set hs2" by simp
    from True run have "runFindUnique mm mainViewSection subViewSection settings w
                          = (Inr (COMPARE_MATCH, []), w7)" by simp
    with eq mk1 none main7 sub7 show ?thesis
      unfolding hs1_def [symmetric] hs2_def [symmetric] mask1_def [symmetric] mask2_def [symmetric]
      by (intro exI [of _ "[]"] exI [of _ w7]) simp
  next
    case False
    with res have ne: "set hs1 \<noteq> set hs2" by simp
    from False run have "runFindUnique mm mainViewSection subViewSection settings w
                          = (Inr (COMPARE_MISMATCH, [align]), w8)" by simp
    with ne mk1 mk2 main8 sub8 show ?thesis
      unfolding hs1_def [symmetric] hs2_def [symmetric] mask1_def [symmetric] mask2_def [symmetric]
      by (intro exI [of _ "[align]"] exI [of _ w8]) simp
  qed
qed

theorem findUnique_residual_of_all_lines_witness:
  "neverCancelled (worldOf [0x61, 0x0A, 0x0A, 0x62] [0x61, 0x0A, 0x62] None)
   \<and> 0 \<le> off \<lparr>off = 0, len = 0\<rparr>
   \<and> 0 \<le> sectionLen (docOf MAIN_VIEW 0 0) (worldOf [0x61, 0x0A, 0x0A, 0x62] [0x61, 0x0A, 0x62] None)
   \<and> 0 \<le> sectionLen (docOf SUB_VIEW 0 0) (worldOf [0x61, 0x0A, 0x0A, 0x62] [0x61, 0x0A, 0x62] None)
   \<and> sectionHashes (settingsOf False False False) MAIN_VIEW \<lparr>off = 0, len = 0\<rparr>
        (worldOf [0x61, 0x0A, 0x0A, 0x62] [0x61, 0x0A, 0x62] None)
       = [2459885552586058892, cHashSeed, 2459888851120943525]
   \<and> sectionHashes (settingsOf False False False) SUB_VIEW \<lparr>off = 0, len = 0\<rparr>
        (worldOf [0x61, 0x0A, 0x0A, 0x62] [0x61, 0x0A, 0x62] None)
       = [2459885552586058892, 2459888851120943525]
   \<and> (\<exists>alignmentInfo w'.
         runFindUnique exMasks \<lparr>off = 0, len = 0\<rparr> \<lparr>off = 0, len = 0\<rparr> (settingsOf False False False)
           (worldOf [0x61, 0x0A, 0x0A, 0x62] [0x61, 0x0A, 0x62] None)
           = (Inr (COMPARE_MISMATCH, alignmentInfo), w')
         \<and> v_markers (mainView w') 0 = 0
         \<and> v_markers (mainView w') 1 = MARKER_MASK_REMOVED exMasks
         \<and> v_markers (mainView w') 2 = 0
         \<and> v_markers (subView w') 0 = 0
         \<and> v_markers (subView w') 1 = 0)"
proof -
  let ?W = "worldOf [0x61, 0x0A, 0x0A, 0x62] [0x61, 0x0A, 0x62] None"
  let ?S = "settingsOf False False False"
  let ?z = "\<lparr>off = 0, len = 0\<rparr> :: section_t"
  let ?hs1 = "[2459885552586058892, cHashSeed, 2459888851120943525] :: uint64 list"
  let ?hs2 = "[2459885552586058892, 2459888851120943525] :: uint64 list"
  have nc: "neverCancelled ?W" by code_simp
  have o: "0 \<le> off ?z" by simp
  have n1: "0 \<le> sectionLen (docOf MAIN_VIEW (off ?z) (len ?z)) ?W" by code_simp
  have n2: "0 \<le> sectionLen (docOf SUB_VIEW (off ?z) (len ?z)) ?W" by code_simp
  have hs1: "sectionHashes ?S MAIN_VIEW ?z ?W = ?hs1" by code_simp
  have hs2: "sectionHashes ?S SUB_VIEW ?z ?W = ?hs2" by code_simp
  have ne: "set ?hs1 \<noteq> set ?hs2" by code_simp
  have r0: "\<not> residualLine ?hs1 ?hs2 (off ?z) 0" by code_simp
  have r1: "residualLine ?hs1 ?hs2 (off ?z) 1" by code_simp
  have r2: "\<not> residualLine ?hs1 ?hs2 (off ?z) 2" by code_simp
  have s0: "\<not> residualLine ?hs2 ?hs1 (off ?z) 0" by code_simp
  have s1: "\<not> residualLine ?hs2 ?hs1 (off ?z) 1" by code_simp
  have mk: "v_markers (mainView ?W) 0 = 0" "v_markers (mainView ?W) 1 = 0" "v_markers (mainView ?W) 2 = 0"
    "v_markers (subView ?W) 0 = 0" "v_markers (subView ?W) 1 = 0"
    by (simp_all add: worldOf_def viewOf_def)
  have msk: "(if OldFileViewId ?S = MAIN_VIEW then MARKER_MASK_REMOVED exMasks else MARKER_MASK_ADDED exMasks)
               = MARKER_MASK_REMOVED exMasks"
    by (simp add: settingsOf_def)
  from findUnique_residual_of_all_lines [OF nc o o n1 n2, of exMasks ?S]
  obtain ai w' where run: "runFindUnique exMasks ?z ?z ?S ?W = (Inr (COMPARE_MISMATCH, ai), w')"
    and m: "\<forall>n. v_markers (mainView w') n =
              (if residualLine ?hs1 ?hs2 (off ?z) n
               then v_markers (mainView ?W) n OR MARKER_MASK_REMOVED exMasks
               else v_markers (mainView ?W) n)"
    and s: "\<forall>n. v_markers (subView w') n =
              (if residualLine ?hs2 ?hs1 (off ?z) n
               then v_markers (subView ?W) n OR
                      (if OldFileViewId ?S = MAIN_VIEW
                       then MARKER_MASK_ADDED exMasks else MARKER_MASK_REMOVED exMasks)
               else v_markers (subView ?W) n)"
    unfolding hs1 hs2 msk using ne by auto
  from m r0 mk have a0: "v_markers (mainView w') 0 = 0" by simp
  from m r1 mk have a1: "v_markers (mainView w') 1 = MARKER_MASK_REMOVED exMasks" by simp
  from m r2 mk have a2: "v_markers (mainView w') 2 = 0" by simp
  from s s0 mk have b0: "v_markers (subView w') 0 = 0" by simp
  from s s1 mk have b1: "v_markers (subView w') 1 = 0" by simp
  have n1': "0 \<le> sectionLen (docOf MAIN_VIEW 0 0) ?W" using n1 by simp
  have n2': "0 \<le> sectionLen (docOf SUB_VIEW 0 0) ?W" using n2 by simp
  from nc o n1' n2' hs1 hs2 run a0 a1 a2 b0 b1 show ?thesis by blast
qed

text \<open>
  C2, as stated, fails. With IgnoreSpaces set, the first document is a blank line
  followed by the line \<open>a\<close> and the second document is the line \<open>a\<close>: were blank-hash
  lines left out of the maps, the two documents would hold the same lines. The run
  in FindUnique mode returns MISMATCH and marks the blank line of the first
  document.
\<close>

theorem findUnique_blank_lines_counterexample:
  "IgnoreSpaces (settingsOf False True False)
   \<and> sectionHashes (settingsOf False True False) MAIN_VIEW \<lparr>off = 0, len = 0\<rparr>
        (worldOf [0x0A, 0x61] [0x61] None) = [cHashSeed, 2459885552586058892]
   \<and> sectionHashes (settingsOf False True False) SUB_VIEW \<lparr>off = 0, len = 0\<rparr>
        (worldOf [0x0A, 0x61] [0x61] None) = [2459885552586058892]
   \<and> fst (runFindUnique exMasks \<lparr>off = 0, len = 0\<rparr> \<lparr>off = 0, len = 0\<rparr> (settingsOf False True False)
             (worldOf [0x0A, 0x61] [0x61] None))
       = Inr (COMPARE_MISMATCH,
              [\<lparr>a_main = \<lparr>a_line = 0, a_diffMask = 0\<rparr>, a_sub = \<lparr>a_line = 0, a_diffMask = 0\<rparr>\<rparr>])
   \<and> v_markers (mainView (snd (runFindUnique exMasks \<lparr>off = 0, len = 0\<rparr> \<lparr>off = 0, len = 0\<rparr>
                                   (settingsOf False True False) (worldOf [0x0A, 0x61] [0x61] None)))) 0
       = MARKER_MASK_REMOVED exMasks
   \<and> v_markers (mainView (snd (runFindUnique exMasks \<lparr>off = 0, len = 0\<rparr> \<lparr>off = 0, len = 0\<rparr>
                                   (settingsOf False True False) (worldOf [0x0A, 0x61] [0x61] None)))) 1
       = 0"
proof -
  let ?W = "worldOf [0x0A, 0x61] [0x61] None"
  let ?S = "settingsOf False True False"
  let ?z = "\<lparr>off = 0, len = 0\<rparr> :: section_t"
  have a: "IgnoreSpaces ?S" by code_simp
  have b: "sectionHashes ?S MAIN_VIEW ?z ?W = [cHashSeed, 2459885552586058892]" by code_simp
  have c: "sectionHashes ?S SUB_VIEW ?z ?W = [2459885552586058892]" by code_simp
  have d: "fst (runFindUnique exMasks ?z ?z ?S ?W)
       = Inr (COMPARE_MISMATCH,
              [\<lparr>a_main = \<lparr>a_line = 0, a_diffMask = 0\<rparr>, a_sub = \<lparr>a_line = 0, a_diffMask = 0\<rparr>\<rparr>])"
    by code_simp
  have e: "v_markers (mainView (snd (runFindUnique exMasks ?z ?z ?S ?W))) 0 = MARKER_MASK_REMOVED exMasks"
    by code_simp
  have f: "v_markers (mainView (snd (runFindUnique exMasks ?z ?z ?S ?W))) 1 = 0"
    by code_simp
  from a b c d e f show ?thesis by blast
qed

subsection \<open>MoveFinder\<close>

lemma appendMatches_Nil: "appendMatches bd [] = bd"
  by (simp add: appendMatches_def)

lemma appendMatches_append: "appendMatches (appendMatches bd xs) ys = appendMatches bd (xs @ ys)"
  by (simp add: appendMatches_def)

lemma addMatch_length: "length (addMatch d m bs) = length bs"
  by (simp add: addMatch_def)

lemma addMatch_nth:
  "j < length bs \<Longrightarrow> addMatch d m bs ! j = appendMatches (bs ! j) (if j = d then [m] else [])"
  by (auto simp: addMatch_def appendMatches_def)

lemma foldl_addMatch:
  "length (foldl (\<lambda>bs m. addMatch (fst m) (f m) bs) bs0 ms) = length bs0 \<and>
   (\<forall>j < length bs0.
      foldl (\<lambda>bs m. addMatch (fst m) (f m) bs) bs0 ms ! j
        = appendMatches (bs0 ! j) (map f (filter (\<lambda>m. fst m = j) ms)))"
proof (induction ms arbitrary: bs0)
  case Nil
  then show ?case by (simp add: appendMatches_Nil)
next
  case (Cons m ms)
  from Cons.IH [of "addMatch (fst m) (f m) bs0"]
  show ?case
    by (auto simp: addMatch_length addMatch_nth appendMatches_append appendMatches_Nil)
qed

lemma commitMatch_entries:
  "length (commitMatch bs best mi) = length bs \<and>
   (\<forall>j < length bs. commitMatch bs best mi ! j = appendMatches (bs ! j) (runEntries j best mi))"
proof -
  let ?mv = "movedFlag mi"
  let ?f = "\<lambda>m. (\<lparr>off = snd m, len = len (mi_sec mi)\<rparr>, ?mv)"
  let ?bs1 = "addMatch best (\<lparr>off = off (mi_sec mi), len = len (mi_sec mi)\<rparr>, ?mv) bs"
  let ?bs2 = "foldl (\<lambda>bs m. addMatch (fst m) (?f m) bs) ?bs1 (matchesIn1 mi)"
  let ?bs3 = "foldl (\<lambda>bs m. addMatch (fst m) (?f m) bs) ?bs2 (matchesIn2 mi)"
  have c: "commitMatch bs best mi = ?bs3" by (simp add: commitMatch_def Let_def)
  have l1: "length ?bs1 = length bs" by (simp add: addMatch_length)
  have l2: "length ?bs2 = length bs" using foldl_addMatch [of ?f ?bs1 "matchesIn1 mi"] l1 by simp
  have l3: "length ?bs3 = length bs" using foldl_addMatch [of ?f ?bs2 "matchesIn2 mi"] l2 by simp
  have "\<forall>j < length bs. ?bs3 ! j = appendMatches (bs ! j) (runEntries j best mi)"
  proof (intro allI impI)
    fix j assume j: "j < length bs"
    have "?bs3 ! j = appendMatches (?bs2 ! j) (map ?f (filter (\<lambda>m. fst m = j) (matchesIn2 mi)))"
      using foldl_addMatch [of ?f ?bs2 "matchesIn2 mi"] j l2 by simp
    also have "?bs2 ! j = appendMatches (?bs1 ! j) (map ?f (filter (\<lambda>m. fst m = j) (matchesIn1 mi)))"
      using foldl_addMatch [of ?f ?bs1 "matchesIn1 mi"] j l1 by simp
    also have "?bs1 ! j = appendMatches (bs ! j)
                 (if j = best then [(\<lparr>off = off (mi_sec mi), len = len (mi_sec mi)\<rparr>, ?mv)] else [])"
      using j by (rule addMatch_nth)
    finally show "?bs3 ! j = appendMatches (bs ! j) (runEntries j best mi)"
      by (simp add: appendMatches_append runEntries_def movedFlag_def Let_def)
  qed
  with l3 show ?thesis unfolding c by blast
qed

lemma committedRunAt_sameShape: "committedRunAt h1 h2 bs bs' \<Longrightarrow> sameShape bs bs'"
  by (auto simp: committedRunAt_def sameShape_def appendMatches_def)

lemma sameShape_refl: "sameShape bs bs"
  by (simp add: sameShape_def)

lemma sameShape_trans: "sameShape a b \<Longrightarrow> sameShape b c \<Longrightarrow> sameShape a c"
  by (auto simp: sameShape_def)

lemma commits_sameShape: "(committedRunAt h1 h2)\<^sup>*\<^sup>* bs bs' \<Longrightarrow> sameShape bs bs'"
  by (induction rule: rtranclp_induct)
     (auto intro: sameShape_refl sameShape_trans committedRunAt_sameShape)

lemma findMatchesStep_targets:
  assumes "d2 < length bs" "bd_type (bs ! d2) = DIFF_IN_2" "targetsIn2 bs mi"
  shows "targetsIn2 bs (fst (findMatchesStep h1 h2 diff1 ei1 d2 diff2 mi minLen ei2)) \<and>
         matchesIn1 (fst (findMatchesStep h1 h2 diff1 ei1 d2 diff2 mi minLen ei2)) = matchesIn1 mi"
proof -
  define st where "st = scanStart h1 h2 diff1 diff2 (ei1 - 1) (ei2 - 1)"
  define matchLen where "matchLen = scanEnd h1 h2 diff1 diff2 (ei1 + 1) (ei2 + 1) - 1 - (fst st + 1) + 1"
  define mi1 where "mi1 = (if len (mi_sec mi) < matchLen
                           then mi\<lparr>mi_sec := \<lparr>off = fst st + 1, len = matchLen\<rparr>, matchesIn2 := []\<rparr>
                           else mi)"
  have t1: "targetsIn2 bs mi1" "matchesIn1 mi1 = matchesIn1 mi"
    using assms(3) by (simp_all add: mi1_def targetsIn2_def)
  have t2: "targetsIn2 bs (mi1\<lparr>matchesIn2 := matchesIn2 mi1 @ [(d2, snd st + 1)]\<rparr>)"
    using t1 assms(1,2) by (simp add: targetsIn2_def)
  have "fst (findMatchesStep h1 h2 diff1 ei1 d2 diff2 mi minLen ei2)
          \<in> {mi, mi1, mi1\<lparr>matchesIn2 := matchesIn2 mi1 @ [(d2, snd st + 1)]\<rparr>}"
    unfolding findMatchesStep_def Let_def st_def [symmetric]
    unfolding matchLen_def [symmetric] mi1_def [symmetric]
    by simp
  with t1 t2 assms(3) show ?thesis by auto
qed

lemma findMatchesLoop_targets:
  assumes "findMatchesLoop h1 h2 diff1 ei1 d2 diff2 mi minLen ei2 = Some r"
    and d: "d2 < length bs" "bd_type (bs ! d2) = DIFF_IN_2" and t: "targetsIn2 bs mi"
  shows "targetsIn2 bs (fst r) \<and> matchesIn1 (fst r) = matchesIn1 mi"
proof -
  have "d2 < length bs \<longrightarrow> bd_type (bs ! d2) = DIFF_IN_2 \<longrightarrow> targetsIn2 bs mi \<longrightarrow>
        targetsIn2 bs (fst r) \<and> matchesIn1 (fst r) = matchesIn1 mi"
  proof (rule findMatchesLoop.raw_induct
           [where P = "\<lambda>h1 h2 diff1 ei1 d2 diff2 mi minLen ei2 r.
                d2 < length bs \<longrightarrow> bd_type (bs ! d2) = DIFF_IN_2 \<longrightarrow> targetsIn2 bs mi \<longrightarrow>
                targetsIn2 bs (fst r) \<and> matchesIn1 (fst r) = matchesIn1 mi", OF _ assms(1)])
    fix f :: "uint64 list \<Rightarrow> uint64 list \<Rightarrow> diffInfo \<Rightarrow> int \<Rightarrow> nat \<Rightarrow> diffInfo \<Rightarrow> MatchInfo \<Rightarrow> int \<Rightarrow> int
               \<Rightarrow> (MatchInfo \<times> int) option"
    fix h1 h2 diff1 ei1 d2 diff2 mi minLen ei2 r
    assume IH: "\<And>h1 h2 diff1 ei1 d2 diff2 mi minLen ei2 r.
        f h1 h2 diff1 ei1 d2 diff2 mi minLen ei2 = Some r \<Longrightarrow>
        d2 < length bs \<longrightarrow> bd_type (bs ! d2) = DIFF_IN_2 \<longrightarrow> targetsIn2 bs mi \<longrightarrow>
        targetsIn2 bs (fst r) \<and> matchesIn1 (fst r) = matchesIn1 mi"
    assume step: "(if bd_len diff2 - ei2 \<ge> minLen
      then (case findMatchesStep h1 h2 diff1 ei1 d2 diff2 mi minLen ei2 of
              (mi', minLen', ei2') \<Rightarrow> f h1 h2 diff1 ei1 d2 diff2 mi' minLen' ei2')
      else Some (mi, minLen)) = Some r"
    show "d2 < length bs \<longrightarrow> bd_type (bs ! d2) = DIFF_IN_2 \<longrightarrow> targetsIn2 bs mi \<longrightarrow>
          targetsIn2 bs (fst r) \<and> matchesIn1 (fst r) = matchesIn1 mi"
    proof (intro impI)
      assume d: "d2 < length bs" "bd_type (bs ! d2) = DIFF_IN_2" and t: "targetsIn2 bs mi"
      show "targetsIn2 bs (fst r) \<and> matchesIn1 (fst r) = matchesIn1 mi"
      proof (cases "bd_len diff2 - ei2 \<ge> minLen")
        case False
        with step t show ?thesis by auto
      next
        case True
        let ?st = "findMatchesStep h1 h2 diff1 ei1 d2 diff2 mi minLen ei2"
        from True step have "f h1 h2 diff1 ei1 d2 diff2 (fst ?st) (fst (snd ?st)) (snd (snd ?st)) = Some r"
          by (simp add: case_prod_beta)
        from IH [OF this] d findMatchesStep_targets [OF d t, of h1 h2 diff1 ei1 diff2 minLen ei2]
        show ?thesis by simp
      qed
    qed
  qed
  with d t show ?thesis by blast
qed

lemma findMatchesBlocks_targets:
  "findMatchesBlocks bs h1 h2 diff1 ei1 ds mi minLen = Some r \<Longrightarrow> \<forall>d \<in> set ds. d < length bs \<Longrightarrow>
   targetsIn2 bs mi \<Longrightarrow> targetsIn2 bs r \<and> matchesIn1 r = matchesIn1 mi"
proof (induction ds arbitrary: mi minLen)
  case Nil
  then show ?case by simp
next
  case (Cons d ds)
  show ?case
  proof (cases "bd_type (bs ! d) \<noteq> DIFF_IN_2")
    case True
    with Cons show ?thesis by simp
  next
    case False
    with Cons.prems(1) obtain mi' minLen' where
      a: "findMatchesLoop h1 h2 diff1 ei1 d (bs ! d) mi minLen 0 = Some (mi', minLen')"
      and b: "findMatchesBlocks bs h1 h2 diff1 ei1 ds mi' minLen' = Some r"
      by (auto split: option.splits)
    from Cons.prems(2) have d: "d < length bs" by simp
    from False have ty: "bd_type (bs ! d) = DIFF_IN_2" by simp
    from findMatchesLoop_targets [OF a d ty Cons.prems(3)]
    have t': "targetsIn2 bs mi'" and m: "matchesIn1 mi' = matchesIn1 mi" by simp_all
    from Cons.IH [OF b _ t'] Cons.prems(2) m show ?thesis by simp
  qed
qed

lemma findMatches_targets:
  "findMatches bs h1 h2 diff1 ei1 mi = Some r \<Longrightarrow> targetsIn2 bs r \<and> matchesIn1 r = []"
  unfolding findMatches_def
  using findMatchesBlocks_targets
          [of bs h1 h2 diff1 ei1 "[0..<length bs]"
              "mi\<lparr>mi_sec := (mi_sec mi)\<lparr>len := 0\<rparr>, matchesIn1 := [], matchesIn2 := []\<rparr>" 1 r]
  by (simp add: targetsIn2_def)

lemma findBetterStep_run:
  assumes "findBetterStep bs h1 h2 d ei best mi i = Some st"
    and "runOfBlocks bs best mi" "d < length bs" "bd_type (bs ! d) = DIFF_IN_1"
  shows "runOfBlocks bs (fst (snd st)) (fst (snd (snd st)))"
proof (cases "fst (snd (snd st)) = mi \<and> fst (snd st) = best")
  case True
  with assms(2) show ?thesis by simp
next
  case False
  with assms(1) have "(\<exists>r i. findMatches bs h1 h2 (bs ! d) i newMatchInfo = Some r \<and>
                         fst (snd st) = d \<and> fst (snd (snd st)) = r)
                    \<or> (\<exists>p. fst (snd st) = best \<and>
                            fst (snd (snd st)) = mi\<lparr>matchesIn1 := matchesIn1 mi @ [(d, p)]\<rparr>)"
    by (auto simp: findBetterStep_def Let_def split: if_splits option.splits)
  then show ?thesis
  proof
    assume "\<exists>r i. findMatches bs h1 h2 (bs ! d) i newMatchInfo = Some r \<and>
                         fst (snd st) = d \<and> fst (snd (snd st)) = r"
    then obtain r i where r: "findMatches bs h1 h2 (bs ! d) i newMatchInfo = Some r"
      and e: "fst (snd st) = d" "fst (snd (snd st)) = r" by blast
    from findMatches_targets [OF r] assms(3,4) show ?thesis
      unfolding e by (simp add: runOfBlocks_def targetsIn2_def)
  next
    assume "\<exists>p. fst (snd st) = best \<and> fst (snd (snd st)) = mi\<lparr>matchesIn1 := matchesIn1 mi @ [(d, p)]\<rparr>"
    then obtain p where e: "fst (snd st) = best"
        "fst (snd (snd st)) = mi\<lparr>matchesIn1 := matchesIn1 mi @ [(d, p)]\<rparr>" by blast
    from assms(2,3,4) show ?thesis
      unfolding e by (auto simp: runOfBlocks_def)
  qed
qed

lemma findBetterLoop_run:
  assumes "findBetterLoop bs h1 h2 d ei best mi i = Some r"
    and "runOfBlocks bs best mi" "d < length bs" "bd_type (bs ! d) = DIFF_IN_1"
  shows "runOfBlocks bs (fst (snd r)) (snd (snd r))"
proof -
  have "runOfBlocks bs best mi \<longrightarrow> d < length bs \<longrightarrow> bd_type (bs ! d) = DIFF_IN_1 \<longrightarrow>
        runOfBlocks bs (fst (snd r)) (snd (snd r))"
  proof (rule findBetterLoop.raw_induct
           [where P = "\<lambda>bs h1 h2 d ei best mi i r.
                runOfBlocks bs best mi \<longrightarrow> d < length bs \<longrightarrow> bd_type (bs ! d) = DIFF_IN_1 \<longrightarrow>
                runOfBlocks bs (fst (snd r)) (snd (snd r))", OF _ assms(1)])
    fix f :: "diffInfo list \<Rightarrow> uint64 list \<Rightarrow> uint64 list \<Rightarrow> nat \<Rightarrow> int \<Rightarrow> nat \<Rightarrow> MatchInfo \<Rightarrow> int
               \<Rightarrow> (int \<times> nat \<times> MatchInfo) option"
    fix bs h1 h2 d ei best mi i r
    assume IH: "\<And>bs h1 h2 d ei best mi i r.
        f bs h1 h2 d ei best mi i = Some r \<Longrightarrow>
        runOfBlocks bs best mi \<longrightarrow> d < length bs \<longrightarrow> bd_type (bs ! d) = DIFF_IN_1 \<longrightarrow>
        runOfBlocks bs (fst (snd r)) (snd (snd r))"
    assume step: "(if bd_len (bs ! d) - i \<ge> len (mi_sec mi)
      then (case findBetterStep bs h1 h2 d ei best mi i of
              None \<Rightarrow> None
            | Some (ei', best', mi', i') \<Rightarrow> f bs h1 h2 d ei' best' mi' i')
      else Some (ei, best, mi)) = Some r"
    show "runOfBlocks bs best mi \<longrightarrow> d < length bs \<longrightarrow> bd_type (bs ! d) = DIFF_IN_1 \<longrightarrow>
          runOfBlocks bs (fst (snd r)) (snd (snd r))"
    proof (intro impI)
      assume rb: "runOfBlocks bs best mi" and d: "d < length bs" "bd_type (bs ! d) = DIFF_IN_1"
      show "runOfBlocks bs (fst (snd r)) (snd (snd r))"
      proof (cases "bd_len (bs ! d) - i \<ge> len (mi_sec mi)")
        case False
        with step rb show ?thesis by auto
      next
        case True
        with step obtain st where
          a: "findBetterStep bs h1 h2 d ei best mi i = Some st" and
          b: "f bs h1 h2 d (fst st) (fst (snd st)) (fst (snd (snd st))) (snd (snd (snd st))) = Some r"
          by (auto split: option.splits simp: case_prod_beta)
        from IH [OF b] findBetterStep_run [OF a rb d] d show ?thesis by simp
      qed
    qed
  qed
  with assms show ?thesis by blast
qed

lemma findBetterLater_run:
  "findBetterLater bs h1 h2 ds bmi best mi = Some r \<Longrightarrow> \<forall>d \<in> set ds. d < length bs \<Longrightarrow>
   runOfBlocks bs best mi \<Longrightarrow> runOfBlocks bs (fst (snd r)) (snd (snd r))"
proof (induction ds arbitrary: bmi best mi)
  case Nil
  then show ?case by auto
next
  case (Cons d ds)
  show ?case
  proof (cases "bd_type (bs ! d) = DIFF_IN_1")
    case False
    with Cons show ?thesis by simp
  next
    case True
    with Cons.prems(1) obtain bmi' best' mi' where
      a: "findBetterMatch bs h1 h2 d bmi best mi = Some (bmi', best', mi')" and
      b: "findBetterLater bs h1 h2 ds bmi' best' mi' = Some r"
      by (auto split: option.splits)
    from Cons.prems(2) have d: "d < length bs" by simp
    from findBetterLoop_run [OF a [unfolded findBetterMatch_def] Cons.prems(3) d True]
    have "runOfBlocks bs best' mi'" by simp
    from Cons.IH [OF b _ this] Cons.prems(2) show ?thesis by simp
  qed
qed

lemma findMovesStep_commits:
  assumes "findMovesStep h1 h2 di1 bs ei1 = Some st" "di1 < length bs" "bd_type (bs ! di1) = DIFF_IN_1"
    and "ei1 < bd_len (bs ! di1)"
  shows "fst st = bs \<or> committedRunAt h1 h2 bs (fst st)"
proof (cases "fst st = bs")
  case True
  then show ?thesis by simp
next
  case False
  with assms(1) obtain mi0 bmi1 best1 mi1 bmi best mi where
    a: "findMatches bs h1 h2 (bs ! di1) ei1 newMatchInfo = Some mi0" and
    b: "findBetterMatch bs h1 h2 di1 ei1 di1 mi0 = Some (bmi1, best1, mi1)" and
    c: "findBetterLater bs h1 h2 [Suc di1..<length bs] bmi1 best1 mi1 = Some (bmi, best, mi)" and
    e: "fst st = commitMatch bs best mi" and
    g: "blockMatched (bs ! di1) ei1 = 0" "h1 ! nat (bd_off (bs ! di1) + ei1) \<noteq> cHashSeed"
       "len (mi_sec mi0) \<noteq> 0"
    by (auto simp: findMovesStep_def split: if_splits option.splits)
  from a b c g have rec: "recordedRun h1 h2 bs di1 ei1 = Some (best, mi)"
    by (simp add: recordedRun_def)
  from findMatches_targets [OF a] assms(2,3) have "runOfBlocks bs di1 mi0"
    by (simp add: runOfBlocks_def targetsIn2_def)
  from findBetterLoop_run [OF b [unfolded findBetterMatch_def] this assms(2,3)]
  have "runOfBlocks bs best1 mi1" by simp
  from findBetterLater_run [OF c _ this] have run: "runOfBlocks bs best mi" by simp
  have "committedRunAt h1 h2 bs (fst st)"
    unfolding committedRunAt_def e
    using commitMatch_entries [of bs best mi] rec run assms(2,3,4)
    by (intro exI [of _ di1] exI [of _ ei1] exI [of _ best] exI [of _ mi]) simp
  then show ?thesis by simp
qed

lemma findMovesLoop_commits:
  assumes "findMovesLoop h1 h2 di1 bs ei1 = Some bs'"
    and "di1 < length bs" "bd_type (bs ! di1) = DIFF_IN_1"
  shows "(committedRunAt h1 h2)\<^sup>*\<^sup>* bs bs'"
proof -
  have "di1 < length bs \<longrightarrow> bd_type (bs ! di1) = DIFF_IN_1 \<longrightarrow> (committedRunAt h1 h2)\<^sup>*\<^sup>* bs bs'"
  proof (rule findMovesLoop.raw_induct
         [where P = "\<lambda>h1 h2 di1 bs ei1 bs'.
            di1 < length bs \<longrightarrow> bd_type (bs ! di1) = DIFF_IN_1 \<longrightarrow> (committedRunAt h1 h2)\<^sup>*\<^sup>* bs bs'",
          OF _ assms(1)])
    fix f :: "uint64 list \<Rightarrow> uint64 list \<Rightarrow> nat \<Rightarrow> diffInfo list \<Rightarrow> int \<Rightarrow> diffInfo list option"
    fix h1 h2 di1 bs ei1 bs'
    assume IH: "\<And>h1 h2 di1 bs ei1 bs'. f h1 h2 di1 bs ei1 = Some bs' \<Longrightarrow>
        di1 < length bs \<longrightarrow> bd_type (bs ! di1) = DIFF_IN_1 \<longrightarrow> (committedRunAt h1 h2)\<^sup>*\<^sup>* bs bs'"
    assume step: "(if ei1 < bd_len (bs ! di1)
      then (case findMovesStep h1 h2 di1 bs ei1 of
              None \<Rightarrow> None
            | Some (bs1, ei1') \<Rightarrow> f h1 h2 di1 bs1 ei1')
      else Some bs) = Some bs'"
    show "di1 < length bs \<longrightarrow> bd_type (bs ! di1) = DIFF_IN_1 \<longrightarrow> (committedRunAt h1 h2)\<^sup>*\<^sup>* bs bs'"
    proof (intro impI)
      assume d: "di1 < length bs" "bd_type (bs ! di1) = DIFF_IN_1"
      show "(committedRunAt h1 h2)\<^sup>*\<^sup>* bs bs'"
      proof (cases "ei1 < bd_len (bs ! di1)")
        case False
        with step show ?thesis by simp
      next
        case True
        with step obtain st where
          a: "findMovesStep h1 h2 di1 bs ei1 = Some st" and b: "f h1 h2 di1 (fst st) (snd st) = Some bs'"
          by (auto split: option.splits simp: case_prod_beta)
        from findMovesStep_commits [OF a d True] have c: "(committedRunAt h1 h2)\<^sup>*\<^sup>* bs (fst st)" by auto
        then have "sameShape bs (fst st)" by (rule commits_sameShape)
        with d have "di1 < length (fst st)" "bd_type (fst st ! di1) = DIFF_IN_1"
          by (simp_all add: sameShape_def)
        with IH [OF b] have "(committedRunAt h1 h2)\<^sup>*\<^sup>* (fst st) bs'" by simp
        with c show ?thesis by simp
      qed
    qed
  qed
  with assms show ?thesis by blast
qed

lemma findMovesBlocks_commits:
  "findMovesBlocks h1 h2 ds bs = Some bs' \<Longrightarrow> \<forall>d \<in> set ds. d < length bs \<Longrightarrow>
   (committedRunAt h1 h2)\<^sup>*\<^sup>* bs bs'"
proof (induction ds arbitrary: bs)
  case Nil
  then show ?case by simp
next
  case (Cons d ds)
  show ?case
  proof (cases "bd_type (bs ! d) \<noteq> DIFF_IN_1")
    case True
    with Cons show ?thesis by simp
  next
    case False
    with Cons.prems obtain bs1 where
      a: "findMovesLoop h1 h2 d bs 0 = Some bs1" and b: "findMovesBlocks h1 h2 ds bs1 = Some bs'"
      by (auto split: option.splits)
    from False Cons.prems(2) have c: "(committedRunAt h1 h2)\<^sup>*\<^sup>* bs bs1"
      by (intro findMovesLoop_commits [OF a]) simp_all
    then have "length bs1 = length bs" using commits_sameShape by (auto simp: sameShape_def)
    with Cons.prems(2) have "\<forall>d \<in> set ds. d < length bs1" by simp
    from Cons.IH [OF b this] c show ?thesis by simp
  qed
qed

text \<open>
  C1. Whenever \<open>findMoves\<close> returns, its result arises from the initial blocks by a
  sequence of commits. Each commit is the commit of the run that the searches record
  at a line of an IN_A block (\<open>recordedRun\<close>: the source block, the recorded IN_A
  alternates and the recorded IN_B targets): every participating block gets the
  entries of that run and no other, all with the same flag, and the flag is true if
  and only if the number of recorded alternates plus 1 equals the number of recorded
  targets and it is not the case that the run length is 1 while there are several
  targets. (\<open>findMoves\<close> is a partial function in this model: the statement is about
  the calls that return.)
\<close>

theorem findMoves_commits_runs:
  "findMoves blockDiffs lineHashes1 lineHashes2 = Some blockDiffs' \<Longrightarrow>
   (committedRunAt lineHashes1 lineHashes2)\<^sup>*\<^sup>* blockDiffs blockDiffs'"
  unfolding findMoves_def by (erule findMovesBlocks_commits) simp

theorem findMoves_commits_runs_witness:
  "findMoves exMoveBlocks [1, 2, 9, 1, 2, 8] [9, 1, 2, 8, 1, 2]
     = Some [appendMatches (blockOfSpan \<lparr>sp_type = DIFF_IN_1, sp_off = 0, sp_len = 2\<rparr>)
               [(\<lparr>off = 0, len = 2\<rparr>, True)],
             blockOfSpan \<lparr>sp_type = DIFF_MATCH, sp_off = 2, sp_len = 1\<rparr>,
             appendMatches (blockOfSpan \<lparr>sp_type = DIFF_IN_1, sp_off = 3, sp_len = 2\<rparr>)
               [(\<lparr>off = 0, len = 2\<rparr>, True)],
             appendMatches (blockOfSpan \<lparr>sp_type = DIFF_IN_2, sp_off = 1, sp_len = 2\<rparr>)
               [(\<lparr>off = 0, len = 2\<rparr>, True)],
             blockOfSpan \<lparr>sp_type = DIFF_MATCH, sp_off = 5, sp_len = 1\<rparr>,
             appendMatches (blockOfSpan \<lparr>sp_type = DIFF_IN_2, sp_off = 4, sp_len = 2\<rparr>)
               [(\<lparr>off = 0, len = 2\<rparr>, True)]]
   \<and> recordedRun [1, 2, 9, 1, 2, 8] [9, 1, 2, 8, 1, 2] exMoveBlocks 0 0
       = Some (0, \<lparr>mi_sec = \<lparr>off = 0, len = 2\<rparr>, matchesIn1 = [(2, 0)],
                   matchesIn2 = [(3, 0), (5, 0)]\<rparr>)
   \<and> (committedRunAt [1, 2, 9, 1, 2, 8] [9, 1, 2, 8, 1, 2])\<^sup>*\<^sup>* exMoveBlocks
         [appendMatches (blockOfSpan \<lparr>sp_type = DIFF_IN_1, sp_off = 0, sp_len = 2\<rparr>)
               [(\<lparr>off = 0, len = 2\<rparr>, True)],
             blockOfSpan \<lparr>sp_type = DIFF_MATCH, sp_off = 2, sp_len = 1\<rparr>,
             appendMatches (blockOfSpan \<lparr>sp_type = DIFF_IN_1, sp_off = 3, sp_len = 2\<rparr>)
               [(\<lparr>off = 0, len = 2\<rparr>, True)],
             appendMatches (blockOfSpan \<lparr>sp_type = DIFF_IN_2, sp_off = 1, sp_len = 2\<rparr>)
               [(\<lparr>off = 0, len = 2\<rparr>, True)],
             blockOfSpan \<lparr>sp_type = DIFF_MATCH, sp_off = 5, sp_len = 1\<rparr>,
             appendMatches (blockOfSpan \<lparr>sp_type = DIFF_IN_2, sp_off = 4, sp_len = 2\<rparr>)
               [(\<lparr>off = 0, len = 2\<rparr>, True)]]"
proof -
  have ev: "findMoves exMoveBlocks [1, 2, 9, 1, 2, 8] [9, 1, 2, 8, 1, 2]
     = Some [appendMatches (blockOfSpan \<lparr>sp_type = DIFF_IN_1, sp_off = 0, sp_len = 2\<rparr>)
               [(\<lparr>off = 0, len = 2\<rparr>, True)],
             blockOfSpan \<lparr>sp_type = DIFF_MATCH, sp_off = 2, sp_len = 1\<rparr>,
             appendMatches (blockOfSpan \<lparr>sp_type = DIFF_IN_1, sp_off = 3, sp_len = 2\<rparr>)
               [(\<lparr>off = 0, len = 2\<rparr>, True)],
             appendMatches (blockOfSpan \<lparr>sp_type = DIFF_IN_2, sp_off = 1, sp_len = 2\<rparr>)
               [(\<lparr>off = 0, len = 2\<rparr>, True)],
             blockOfSpan \<lparr>sp_type = DIFF_MATCH, sp_off = 5, sp_len = 1\<rparr>,
             appendMatches (blockOfSpan \<lparr>sp_type = DIFF_IN_2, sp_off = 4, sp_len = 2\<rparr>)
               [(\<lparr>off = 0, len = 2\<rparr>, True)]]"
    by code_simp
  have rec: "recordedRun [1, 2, 9, 1, 2, 8] [9, 1, 2, 8, 1, 2] exMoveBlocks 0 0
       = Some (0, \<lparr>mi_sec = \<lparr>off = 0, len = 2\<rparr>, matchesIn1 = [(2, 0)],
                   matchesIn2 = [(3, 0), (5, 0)]\<rparr>)"
    by code_simp
  from findMoves_commits_runs [OF ev] ev rec show ?thesis by blast
qed

subsection \<open>BlockPairComparer: candidates and mapping search\<close>












lemma map_emplace_set: "set (map_emplace k v es) \<subseteq> insert (k, v) (set es)"
  by (induction es) auto

lemma map_emplace_sorted:
  "sorted_wrt (<) (map fst es) \<Longrightarrow> sorted_wrt (<) (map fst (map_emplace k v es))"
proof (induction es)
  case Nil
  then show ?case by simp
next
  case (Cons e es)
  from Cons.prems have srt: "sorted_wrt (<) (map fst es)" and lt: "\<forall>x \<in> set es. fst e < fst x"
    by auto
  show ?case
  proof (cases "k < fst e")
    case True
    with Cons.prems show ?thesis by auto
  next
    case False
    show ?thesis
    proof (cases "fst e < k")
      case True
      have "\<forall>x \<in> set (map_emplace k v es). fst e < fst x"
      proof
        fix x assume "x \<in> set (map_emplace k v es)"
        with map_emplace_set [of k v es] have "x = (k, v) \<or> x \<in> set es" by auto
        with True lt show "fst e < fst x" by auto
      qed
      with True False Cons.IH [OF srt] show ?thesis by simp
    next
      case False
      with \<open>\<not> k < fst e\<close> Cons.prems show ?thesis by simp
    qed
  qed
qed

lemma mappingLoop_sorted:
  "sorted_wrt (<) (map fst (lineMappings st)) \<Longrightarrow>
   sorted_wrt (<) (map fst (lineMappings (mappingLoop n1 n2 ocs st)))"
proof (induction ocs arbitrary: st)
  case Nil
  then show ?case by simp
next
  case (Cons oc ocs)
  let ?st1 = "st\<lparr>lineMappings := map_emplace (ck_line1 oc) (ck_convergence oc, ck_line2 oc) (lineMappings st),
                   mappedLinesCount1 := mappedLinesCount1 st + 1\<rparr>"
  have s1: "sorted_wrt (<) (map fst (lineMappings ?st1))"
    using Cons.prems by (simp add: map_emplace_sorted)
  show ?case
  proof (cases "\<not> mappedLines1 st ! nat (ck_line1 oc) \<and> \<not> mappedLines2 st ! nat (ck_line2 oc)")
    case False
    then show ?thesis using Cons by auto
  next
    case True
    then show ?thesis
      using s1 Cons.IH by (simp add: Let_def)
  qed
qed

lemma mappingFrom_sorted: "sorted_wrt (<) (map fst (mappingFrom n1 n2 ocs))"
  unfolding mappingFrom_def by (rule mappingLoop_sorted) simp

lemma startLoop_sorted:
  "sorted_wrt (<) (map fst (snd best)) \<Longrightarrow> sorted_wrt (<) (map fst (snd (startLoop n1 n2 ocs best)))"
  by (induction ocs arbitrary: best) (auto simp: Let_def mappingFrom_sorted)

lemma bestLineMappings_sorted: "sorted_wrt (<) (map fst (bestLineMappings n1 n2 ocs))"
  unfolding bestLineMappings_def by (rule startLoop_sorted) simp























subsection \<open>BlockPairComparer: the convergence of a candidate pair\<close>

text \<open>
  C3 does not hold of the code. \<open>line1Len\<close> is declared outside the loop over the
  lines of the second block and keeps the byte count of a longer line met earlier in
  that loop. The only line of the first block and line 1 of the second block have 3
  words and 6 bytes each and share the word \<open>abcd\<close>: the convergence of the claim
  is 66, so the triple should be recorded. After the 9-byte line 0 of the second
  block the code divides by 9, gets 44 (and 33 by words) and records nothing; with
  the two lines of the second block in the other order it records the triple with
  66.
\<close>

theorem candidate_convergence_stale_length:
  "map length exStale1 = [3] \<and> map length exStale2 = [3, 3]
   \<and> map wordsLen exStale1 = [6] \<and> map wordsLen exStale2 = [9, 6]
   \<and> diffWordsSpec (exStale1 ! 0) (exStale2 ! 1)
       = Inr [\<lparr>sp_type = DIFF_MATCH, sp_off = 0, sp_len = 1\<rparr>,
              \<lparr>sp_type = DIFF_IN_1, sp_off = 1, sp_len = 2\<rparr>,
              \<lparr>sp_type = DIFF_IN_2, sp_off = 1, sp_len = 2\<rparr>]
   \<and> specConvergence (exStale1 ! 0) (exStale2 ! 1)
        [\<lparr>sp_type = DIFF_MATCH, sp_off = 0, sp_len = 1\<rparr>,
         \<lparr>sp_type = DIFF_IN_1, sp_off = 1, sp_len = 2\<rparr>,
         \<lparr>sp_type = DIFF_IN_2, sp_off = 1, sp_len = 2\<rparr>] = 66
   \<and> line1Loop diffWordsSpec exStale1 exStale2
         (blockOfSpan \<lparr>sp_type = DIFF_IN_1, sp_off = 0, sp_len = 1\<rparr>)
         (blockOfSpan \<lparr>sp_type = DIFF_IN_2, sp_off = 0, sp_len = 2\<rparr>) 0 [] = Inr []
   \<and> line1Loop diffWordsSpec exStale1 (rev exStale2)
         (blockOfSpan \<lparr>sp_type = DIFF_IN_1, sp_off = 0, sp_len = 1\<rparr>)
         (blockOfSpan \<lparr>sp_type = DIFF_IN_2, sp_off = 0, sp_len = 2\<rparr>) 0 []
       = Inr [\<lparr>ck_convergence = 66, ck_line1 = 0, ck_line2 = 0\<rparr>]"
proof -
  have a: "map length exStale1 = [3]" "map length exStale2 = [3, 3]"
    "map wordsLen exStale1 = [6]" "map wordsLen exStale2 = [9, 6]"
    by code_simp+
  have b: "diffWordsSpec (exStale1 ! 0) (exStale2 ! 1)
       = Inr [\<lparr>sp_type = DIFF_MATCH, sp_off = 0, sp_len = 1\<rparr>,
              \<lparr>sp_type = DIFF_IN_1, sp_off = 1, sp_len = 2\<rparr>,
              \<lparr>sp_type = DIFF_IN_2, sp_off = 1, sp_len = 2\<rparr>]"
    by code_simp
  have c: "specConvergence (exStale1 ! 0) (exStale2 ! 1)
        [\<lparr>sp_type = DIFF_MATCH, sp_off = 0, sp_len = 1\<rparr>,
         \<lparr>sp_type = DIFF_IN_1, sp_off = 1, sp_len = 2\<rparr>,
         \<lparr>sp_type = DIFF_IN_2, sp_off = 1, sp_len = 2\<rparr>] = 66"
    by code_simp
  have d: "line1Loop diffWordsSpec exStale1 exStale2
         (blockOfSpan \<lparr>sp_type = DIFF_IN_1, sp_off = 0, sp_len = 1\<rparr>)
         (blockOfSpan \<lparr>sp_type = DIFF_IN_2, sp_off = 0, sp_len = 2\<rparr>) 0 [] = Inr []"
    by code_simp
  have e: "line1Loop diffWordsSpec exStale1 (rev exStale2)
         (blockOfSpan \<lparr>sp_type = DIFF_IN_1, sp_off = 0, sp_len = 1\<rparr>)
         (blockOfSpan \<lparr>sp_type = DIFF_IN_2, sp_off = 0, sp_len = 2\<rparr>) 0 []
       = Inr [\<lparr>ck_convergence = 66, ck_line1 = 0, ck_line2 = 0\<rparr>]"
    by code_simp
  from a b c d e show ?thesis by simp
qed

subsection \<open>The compare mode: what a run leaves unchanged\<close>

lemma docFrame_refl [simp]: "docFrame v v"
  by (simp add: docFrame_def)

lemma docFrame_trans: "docFrame a b \<Longrightarrow> docFrame b c \<Longrightarrow> docFrame a c"
  by (simp add: docFrame_def)

lemma docsKept_refl [simp]: "docsKept w w"
  by (simp add: docsKept_def)

lemma docsKept_trans: "docsKept a b \<Longrightarrow> docsKept b c \<Longrightarrow> docsKept a c"
  by (auto simp: docsKept_def intro: docFrame_trans)

lemma marksOnly_refl [simp]: "marksOnly w w"
  by (simp add: marksOnly_def)

lemma marksOnly_trans: "marksOnly a b \<Longrightarrow> marksOnly b c \<Longrightarrow> marksOnly a c"
  by (auto simp: marksOnly_def intro: docsKept_trans)

lemma marksOnly_docsKept: "marksOnly a b \<Longrightarrow> docsKept a b"
  by (simp add: marksOnly_def)

lemma docFrame_marker: "docFrame v v' \<Longrightarrow> docFrame v (SCI_MARKERADDSET n msk v')"
  by (simp add: docFrame_def SCI_MARKERADDSET_def)

lemma docFrame_changed: "docFrame v v' \<Longrightarrow> docFrame v (markTextAsChanged p n v')"
  by (simp add: docFrame_def markTextAsChanged_def)

lemma docFrame_foldl_marker:
  "docFrame v v' \<Longrightarrow> docFrame v (foldl (\<lambda>v j. SCI_MARKERADDSET (g j) msk v) v' js)"
  by (induction js arbitrary: v') (simp_all add: docFrame_marker)

lemma docFrame_foldl_changed:
  "docFrame v v' \<Longrightarrow> docFrame v (foldl (\<lambda>v c. markTextAsChanged (g v c) (h c) v) v' cs)"
  by (induction cs arbitrary: v') (simp_all add: docFrame_changed)

lemma marksOnly_setView:
  "docFrame (getView w view) v \<Longrightarrow> marksOnly w (setView view v w)"
  by (auto simp: marksOnly_def docsKept_def setView_def getView_def)

lemma messages_setView [simp]: "messages (setView view v w) = messages w"
  by (simp add: setView_def)



lemma marksOnly_onView:
  "(\<And>v. docFrame v (f v)) \<Longrightarrow> marksOnly w (onView view f w)"
  unfolding onView_def by (rule marksOnly_setView) simp

lemma markSectionStep_frame:
  "docFrame v0 v \<Longrightarrow> docFrame v0 (snd (snd (markSectionStep mm bd doc i n v)))"
  unfolding markSectionStep_def Let_def
  by (simp add: docFrame_marker docFrame_foldl_marker)

lemma markSectionLoop_frame:
  assumes "markSectionLoop mm bd doc endOff i n v = Some v'"
  shows "docFrame v0 v \<longrightarrow> docFrame v0 v'"
proof (rule markSectionLoop.raw_induct
         [where P = "\<lambda>mm bd doc endOff i n v v'. docFrame v0 v \<longrightarrow> docFrame v0 v'", OF _ assms])
  fix f mm bd doc endOff i n v v'
  assume IH: "\<And>mm bd doc endOff i n v v'. f mm bd doc endOff i n v = Some v'
                 \<Longrightarrow> docFrame v0 v \<longrightarrow> docFrame v0 v'"
    and step: "(if i < endOff
                then (case markSectionStep mm bd doc i n v of
                        (i', n', v') \<Rightarrow> f mm bd doc endOff i' n' v')
                else Some v) = Some v'"
  show "docFrame v0 v \<longrightarrow> docFrame v0 v'"
  proof (cases "i < endOff")
    case False
    with step show ?thesis by simp
  next
    case True
    obtain i' n' v1 where s: "markSectionStep mm bd doc i n v = (i', n', v1)"
      by (cases "markSectionStep mm bd doc i n v") auto
    from step True s have "f mm bd doc endOff i' n' v1 = Some v'" by simp
    from IH [OF this] have a: "docFrame v0 v1 \<longrightarrow> docFrame v0 v'" .
    from markSectionStep_frame [of v0 v mm bd doc i n] s
    have "docFrame v0 v \<Longrightarrow> docFrame v0 v1" by simp
    with a show ?thesis by blast
  qed
qed

lemma markSection_frame:
  "markSection mm bd doc w = Some w' \<Longrightarrow> marksOnly w w'"
  unfolding markSection_def
  by (auto split: option.splits dest!: markSectionLoop_frame [where ?v0.0 = "getView w (d_view doc)"]
           intro: marksOnly_setView)

lemma markChanges_frame: "docFrame v (markChanges n cl msk v)"
  unfolding markChanges_def
  by (intro docFrame_marker docFrame_foldl_changed) simp

lemma markLineDiffs_frame: "marksOnly w (markLineDiffs mm view1 view2 bd mb j w)"
  unfolding markLineDiffs_def Let_def
  by (rule marksOnly_trans [OF marksOnly_setView marksOnly_setView]) (rule markChanges_frame)+

lemma ms_world_simps [simp]:
  "ms_world (setMasks sw a b st) = ms_world st"
  "ms_world (pushAlign st) = ms_world st"
  "ms_world (addLines sw n1 n2 st) = ms_world st"
  "ms_world (setSection1 f st) = ms_world st"
  "ms_world (setSection2 g st) = ms_world st"
  by (simp_all add: setMasks_def pushAlign_def addLines_def setSection1_def setSection2_def)

lemma markSection1_frame: "markSection1 mm bd st = Some st' \<Longrightarrow> marksOnly (ms_world st) (ms_world st')"
  by (auto simp: markSection1_def split: option.splits dest: markSection_frame)

lemma markSection2_frame: "markSection2 mm bd st = Some st' \<Longrightarrow> marksOnly (ms_world st) (ms_world st')"
  by (auto simp: markSection2_def split: option.splits dest: markSection_frame)

lemma markUnchangedPart_frame:
  assumes "markUnchangedPart mm sw bd mb st = Some st'"
  shows "marksOnly (ms_world st) (ms_world st')"
  using assms unfolding markUnchangedPart_def Let_def
  by (auto split: if_splits option.splits
           dest!: markSection1_frame markSection2_frame intro: marksOnly_trans)

lemma changedLinesLoop_frame:
  "changedLinesLoop mm sw bd mb js st = Some st' \<Longrightarrow> marksOnly (ms_world st) (ms_world st')"
proof (induction js arbitrary: st)
  case Nil
  then show ?case by simp
next
  case (Cons j js)
  from Cons.prems obtain st2 where
    a: "markUnchangedPart mm sw bd mb
          (setSection2 (\<lambda>s. s\<lparr>len := dl_line (changedLines (bd_info mb) ! j) - off s\<rparr>)
             (setSection1 (\<lambda>s. s\<lparr>len := dl_line (changedLines (bd_info bd) ! j) - off s\<rparr>) st)) = Some st2"
    by (auto simp: Let_def split: option.splits)
  define st3 where "st3 = pushAlign (setMasks sw (MARKER_MASK_CHANGED mm) (MARKER_MASK_CHANGED mm) st2)"
  define st4 where "st4 = st3\<lparr>ms_world := markLineDiffs mm (d_view (ms_doc1 st3)) (d_view (ms_doc2 st3))
                                           bd mb j (ms_world st3)\<rparr>"
  define st5 where "st5 = setSection2 (\<lambda>s. s\<lparr>off := dl_line (changedLines (bd_info mb) ! j) + 1\<rparr>)
                          (setSection1 (\<lambda>s. s\<lparr>off := dl_line (changedLines (bd_info bd) ! j) + 1\<rparr>) st4)"
  from Cons.prems a have b: "changedLinesLoop mm sw bd mb js (addLines sw 1 1 st5) = Some st'"
    by (simp add: Let_def st3_def st4_def st5_def)
  from markUnchangedPart_frame [OF a] have f1: "marksOnly (ms_world st) (ms_world st2)" by simp
  have f2: "marksOnly (ms_world st2) (ms_world (addLines sw 1 1 st5))"
    by (simp add: st5_def st4_def st3_def markLineDiffs_frame)
  from Cons.IH [OF b] f1 f2 show ?case by (blast intro: marksOnly_trans)
qed

lemma markBlock_frame:
  assumes "markBlock mm sw bds i st = Some st'"
  shows "marksOnly (ms_world st) (ms_world st')"
proof (cases "bd_type (bds ! i)")
  case DIFF_MATCH
  with assms show ?thesis by (auto simp: markBlock_def Let_def)
next
  case DIFF_IN_2
  with assms show ?thesis
    by (auto simp: markBlock_def Let_def split: option.splits dest!: markSection2_frame)
next
  case DIFF_IN_1
  show ?thesis
  proof (cases "matchBlock (bd_info (bds ! i))")
    case None
    with DIFF_IN_1 assms show ?thesis
      by (auto simp: markBlock_def Let_def split: option.splits dest!: markSection1_frame)
  next
    case (Some mb)
    with DIFF_IN_1 assms obtain st1 where
      a: "changedLinesLoop mm sw (bds ! i) (bds ! mb) [0..<length (changedLines (bd_info (bds ! i)))]
            (setSection2 (\<lambda>s. s\<lparr>off := 0\<rparr>) (setSection1 (\<lambda>s. s\<lparr>off := 0\<rparr>) st)) = Some st1"
      and b: "markUnchangedPart mm sw (bds ! i) (bds ! mb)
                (setSection2 (\<lambda>s. s\<lparr>len := bd_len (bds ! mb) - off s\<rparr>)
                   (setSection1 (\<lambda>s. s\<lparr>len := bd_len (bds ! i) - off s\<rparr>) st1)) = Some st'"
      by (auto simp: markBlock_def Let_def split: option.splits)
    from changedLinesLoop_frame [OF a] markUnchangedPart_frame [OF b]
    show ?thesis by (auto intro: marksOnly_trans)
  qed
qed

lemma kept_refl [simp]: "kept w w"
  by (simp add: kept_def)

lemma kept_trans: "kept a b \<Longrightarrow> kept b c \<Longrightarrow> kept a c"
  by (auto simp: kept_def intro: docsKept_trans)

lemma marksOnly_kept: "marksOnly a b \<Longrightarrow> kept a b"
  by (simp add: marksOnly_def kept_def neverCancelled_def)

lemma Advance_kept: "kept w (snd (Advance w))"
  by (auto simp: Advance_def kept_def docsKept_def neverCancelled_def split: option.splits nat.splits)

lemma Advance_ok: "neverCancelled w \<Longrightarrow> p_open (progress w) \<Longrightarrow> fst (Advance w)"
  by (auto simp: Advance_def neverCancelled_def)

lemma phaseCancelled_kept: "kept w (snd (phaseCancelled w))"
  using Advance_kept [of w]
  by (auto simp: phaseCancelled_def NextPhase_def split: prod.splits)

lemma phaseCancelled_never: "neverCancelled w \<Longrightarrow> \<not> fst (phaseCancelled w)"
  using Advance_ok [of w]
  by (auto simp: phaseCancelled_def NextPhase_def split: prod.splits)

lemma advanceCancelled_kept: "kept w (snd (advanceCancelled w))"
  using Advance_kept [of w]
  by (auto simp: advanceCancelled_def split: prod.splits)

lemma advanceCancelled_never: "neverCancelled w \<Longrightarrow> \<not> fst (advanceCancelled w)"
  using Advance_ok [of w]
  by (auto simp: advanceCancelled_def split: prod.splits)

lemma SetMaxCount_kept: "kept w (SetMaxCount n w)"
  by (simp add: kept_def docsKept_def SetMaxCount_def neverCancelled_def)

lemma hashLoop_kept: "hashLoop s view secOff ns acc w = (r, w') \<Longrightarrow> kept w w'"
proof (induction ns arbitrary: acc w)
  case Nil
  then show ?case by simp
next
  case (Cons n ns)
  show ?case
  proof (cases "p_open (progress w) \<and> n mod 500 = 0")
    case False
    with Cons.prems have "hashLoop s view secOff ns (acc @ [hashLine s (getView w view) (n + secOff)]) w = (r, w')"
      by auto
    from Cons.IH [OF this] show ?thesis .
  next
    case True
    obtain ok w1 where a: "Advance w = (ok, w1)" by (cases "Advance w") auto
    from Advance_kept [of w] a have k: "kept w w1" by simp
    show ?thesis
    proof (cases ok)
      case False
      with Cons.prems True a have "w' = w1" by simp
      with k show ?thesis by simp
    next
      case ok: True
      with Cons.prems True a
      have "hashLoop s view secOff ns (acc @ [hashLine s (getView w1 view) (n + secOff)]) w1 = (r, w')"
        by simp
      from Cons.IH [OF this] k show ?thesis by (blast intro: kept_trans)
    qed
  qed
qed

lemma computeLineHashes_kept:
  assumes "computeLineHashes doc s w = (r, w')"
  shows "kept w w'"
proof -
  define v where "v = getView w (d_view doc)"
  define lineCount where "lineCount = (if SCI_GETLENGTH v \<noteq> 0 then SCI_GETLINECOUNT v else SCI_GETLENGTH v)"
  define sec1 where "sec1 = (if len (d_section doc) \<le> 0 \<or> off (d_section doc) + len (d_section doc) > lineCount
                  then (d_section doc)\<lparr>len := lineCount - off (d_section doc)\<rparr> else d_section doc)"
  define w1 where "w1 = (if p_open (progress w) then SetMaxCount (cdiv (len sec1) 500 + 1) w else w)"
  have k1: "kept w w1" by (simp add: w1_def SetMaxCount_kept)
  have unf: "snd (computeLineHashes doc s w) =
     (if len sec1 < 0 then w1
      else snd (hashLoop s (d_view doc) (off sec1) (map int [0..<nat (len sec1)]) [] w1))"
    unfolding computeLineHashes_def Let_def v_def [symmetric]
    unfolding lineCount_def [symmetric]
    unfolding sec1_def [symmetric] DocCmpInfo.simps
    unfolding w1_def [symmetric]
    by (simp split: prod.splits option.splits)
  from assms have w': "w' = snd (computeLineHashes doc s w)" by simp
  show ?thesis
  proof (cases "len sec1 < 0")
    case True
    with w' unf k1 show ?thesis by simp
  next
    case False
    obtain r2 w2 where h: "hashLoop s (d_view doc) (off sec1) (map int [0..<nat (len sec1)]) [] w1 = (r2, w2)"
      by (cases "hashLoop s (d_view doc) (off sec1) (map int [0..<nat (len sec1)]) [] w1") auto
    from w' unf False h have "w' = w2" by simp
    with hashLoop_kept [OF h] k1 show ?thesis by (blast intro: kept_trans)
  qed
qed

lemma computeLineHashes_doc:
  assumes "computeLineHashes doc s w = (Inr (hs, doc'), w')"
  shows "d_view doc' = d_view doc \<and> off (d_section doc') = off (d_section doc)
         \<and> d_blockDiffMask doc' = d_blockDiffMask doc"
  using assms unfolding computeLineHashes_def Let_def
  by (auto split: if_splits prod.splits option.splits)

lemma computeLineHashes_fault:
  assumes "computeLineHashes doc s w = (Inl e, w')"
  shows "e = Exception ''vector too long''"
  using assms unfolding computeLineHashes_def Let_def
  by (auto split: if_splits prod.splits option.splits)


lemma markBlocksLoop_kept:
  "markBlocksLoop mm sw bds i st = Some (c, st')
   \<Longrightarrow> kept (ms_world st) (ms_world st') \<and> (neverCancelled (ms_world st) \<longrightarrow> c)"
proof (induction mm sw bds i st rule: markBlocksLoop.induct)
  case (1 mm sw bds i st)
  note run = "1.prems" [unfolded markBlocksLoop.simps [of mm sw bds i st]]
  show ?case
  proof (cases "i < length bds")
    case False
    with run show ?thesis by simp
  next
    case True
    with run obtain st1 where mb: "markBlock mm sw bds i st = Some st1"
      by (auto split: option.splits)
    from markBlock_frame [OF mb] have k1: "kept (ms_world st) (ms_world st1)"
      by (rule marksOnly_kept)
    let ?w = "snd (advanceCancelled (ms_world st1))"
    have k2: "kept (ms_world st1) ?w" by (rule advanceCancelled_kept)
    from k1 k2 have k12: "kept (ms_world st) ?w" by (rule kept_trans)
    show ?thesis
    proof (cases "fst (advanceCancelled (ms_world st1))")
      case c: True
      with run True mb have "st' = st1\<lparr>ms_world := ?w\<rparr>" "c = False" by auto
      moreover have "\<not> neverCancelled (ms_world st)"
      proof
        assume "neverCancelled (ms_world st)"
        with k1 have "neverCancelled (ms_world st1)" by (simp add: kept_def)
        from advanceCancelled_never [OF this] c show False by simp
      qed
      ultimately show ?thesis using k12 by simp
    next
      case c: False
      with run True mb
      have r: "markBlocksLoop mm sw bds (i + blockStride (bds ! i)) (st1\<lparr>ms_world := ?w\<rparr>) = Some (c, st')"
        by simp
      from "1.IH" [OF True mb c r]
      have "kept ?w (ms_world st')" and n: "neverCancelled ?w \<longrightarrow> c" by simp_all
      with k12 have k: "kept (ms_world st) (ms_world st')" by (blast intro: kept_trans)
      from k12 n have "neverCancelled (ms_world st) \<longrightarrow> c" by (simp add: kept_def)
      with k show ?thesis by simp
    qed
  qed
qed

lemma markAllDiffs_kept:
  assumes "markAllDiffs mm ci w = Some (ok, ai, w')"
  shows "kept w w' \<and> (neverCancelled w \<longrightarrow> ok)"
proof -
  define w1 where "w1 = (if p_open (progress w) then SetMaxCount (int (length (ci_blockDiffs ci))) w else w)"
  define sw where "sw = (d_view (ci_doc1 ci) = SUB_VIEW)"
  define ap where "ap = updAlign2 sw (\<lambda>d. d\<lparr>a_line := off (d_section (ci_doc2 ci))\<rparr>)
                        (updAlign1 sw (\<lambda>d. d\<lparr>a_line := off (d_section (ci_doc1 ci))\<rparr>)
                           defaultAlignmentPair)"
  define st0 where "st0 = \<lparr>ms_world = w1, ms_alignmentInfo = [], ms_alignPair = ap,
                 ms_doc1 = ci_doc1 ci, ms_doc2 = ci_doc2 ci\<rparr>"
  have k1: "kept w w1" by (simp add: w1_def SetMaxCount_kept)
  from assms obtain c st where
    loop: "markBlocksLoop mm sw (ci_blockDiffs ci) 0 st0 = Some (c, st)"
    unfolding markAllDiffs_def Let_def w1_def [symmetric] sw_def [symmetric]
    unfolding ap_def [symmetric] st0_def [symmetric]
    by (auto split: option.splits)
  from markBlocksLoop_kept [OF loop] have k2: "kept w1 (ms_world st)"
    and n2: "neverCancelled w1 \<longrightarrow> c" by (simp_all add: st0_def)
  from k1 k2 have k12: "kept w (ms_world st)" by (rule kept_trans)
  show ?thesis
  proof (cases c)
    case False
    with assms loop have "w' = ms_world st"
      unfolding markAllDiffs_def Let_def w1_def [symmetric] sw_def [symmetric]
      unfolding ap_def [symmetric] st0_def [symmetric]
      by simp
    moreover from False n2 k1 have "\<not> neverCancelled w" by (auto simp: kept_def)
    ultimately show ?thesis using k12 by simp
  next
    case True
    define st1 where "st1 = (if ci_selectionCompare ci then pushAlign (setMasks sw 0 0 st) else st)"
    have ws: "ms_world st1 = ms_world st" by (simp add: st1_def)
    from True assms loop have ok: "ok = (\<not> fst (phaseCancelled (ms_world st1)))"
      and w': "w' = snd (phaseCancelled (ms_world st1))"
      unfolding markAllDiffs_def Let_def w1_def [symmetric] sw_def [symmetric]
      unfolding ap_def [symmetric] st0_def [symmetric]
      by (simp_all add: st1_def)
    have "kept (ms_world st) w'" unfolding w' ws by (rule phaseCancelled_kept)
    with k12 have k: "kept w w'" by (rule kept_trans)
    have "neverCancelled w \<longrightarrow> ok"
    proof
      assume "neverCancelled w"
      with k12 have "neverCancelled (ms_world st)" by (simp add: kept_def)
      from phaseCancelled_never [OF this] show ok unfolding ok ws by simp
    qed
    with k show ?thesis by simp
  qed
qed

lemma hashLines_cases:
  assumes "hashLines mm mainViewSection subViewSection settings w = (st, w')"
  shows "kept w w' \<and>
    (case st of
       Fault e \<Rightarrow> e \<noteq> UndefinedBehaviour
     | Return r \<Rightarrow> r = COMPARE_CANCELLED \<and> \<not> neverCancelled w
     | Continue x \<Rightarrow>
         ci_blockDiffs (fst x) = [] \<and>
         ((d_view (ci_doc1 (fst x)) = MAIN_VIEW \<and> d_view (ci_doc2 (fst x)) = SUB_VIEW \<and>
           off (d_section (ci_doc1 (fst x))) = off mainViewSection \<and>
           off (d_section (ci_doc2 (fst x))) = off subViewSection)
          \<or> (d_view (ci_doc1 (fst x)) = SUB_VIEW \<and> d_view (ci_doc2 (fst x)) = MAIN_VIEW \<and>
              off (d_section (ci_doc1 (fst x))) = off subViewSection \<and>
              off (d_section (ci_doc2 (fst x))) = off mainViewSection)))"
proof -
  define doc1 where "doc1 = \<lparr>d_view = MAIN_VIEW, d_section = mainViewSection,
                  d_blockDiffMask = (if OldFileViewId settings = MAIN_VIEW
                                     then MARKER_MASK_REMOVED mm else MARKER_MASK_ADDED mm)\<rparr>"
  define doc2 where "doc2 = \<lparr>d_view = SUB_VIEW, d_section = subViewSection,
                  d_blockDiffMask = (if OldFileViewId settings = MAIN_VIEW
                                     then MARKER_MASK_ADDED mm else MARKER_MASK_REMOVED mm)\<rparr>"
  note unf = hashLines_def [of mm mainViewSection subViewSection settings w,
                unfolded Let_def, folded doc1_def doc2_def]
  obtain r1 w1 where c1: "computeLineHashes doc1 settings w = (r1, w1)"
    by (cases "computeLineHashes doc1 settings w") auto
  note k1 = computeLineHashes_kept [OF c1]
  show ?thesis
  proof (cases r1)
    case (Inl e)
    with assms c1 have "st = Fault e" "w' = w1" unfolding unf by simp_all
    moreover from c1 Inl have "e \<noteq> UndefinedBehaviour"
      using computeLineHashes_fault [of doc1 settings w e w1] by simp
    ultimately show ?thesis using k1 by simp
  next
    case (Inr x1)
    obtain h1 d1 where x1: "x1 = (h1, d1)" by (cases x1) auto
    from computeLineHashes_doc [OF c1 [unfolded Inr x1]]
    have d1: "d_view d1 = MAIN_VIEW" "off (d_section d1) = off mainViewSection"
      by (simp_all add: doc1_def)
    let ?w2 = "snd (phaseCancelled w1)"
    have k2: "kept w ?w2" using k1 phaseCancelled_kept [of w1] by (rule kept_trans)
    show ?thesis
    proof (cases "fst (phaseCancelled w1)")
      case True
      with assms c1 Inr x1 have "st = Return COMPARE_CANCELLED" "w' = ?w2" unfolding unf by simp_all
      moreover have "\<not> neverCancelled w"
      proof
        assume "neverCancelled w"
        with k1 have "neverCancelled w1" by (simp add: kept_def)
        from phaseCancelled_never [OF this] True show False by simp
      qed
      ultimately show ?thesis using k2 by simp
    next
      case p1: False
      obtain r3 w3 where c3: "computeLineHashes doc2 settings ?w2 = (r3, w3)"
        by (cases "computeLineHashes doc2 settings ?w2") auto
      from k2 computeLineHashes_kept [OF c3] have k3: "kept w w3" by (rule kept_trans)
      show ?thesis
      proof (cases r3)
        case (Inl e)
        with assms c1 Inr x1 p1 c3 have "st = Fault e" "w' = w3" unfolding unf by simp_all
        moreover from c3 Inl have "e \<noteq> UndefinedBehaviour"
          using computeLineHashes_fault [of doc2 settings ?w2 e w3] by simp
        ultimately show ?thesis using k3 by simp
      next
        case r3: (Inr x3)
        obtain h2 d2 where x3: "x3 = (h2, d2)" by (cases x3) auto
        from computeLineHashes_doc [OF c3 [unfolded r3 x3]]
        have d2: "d_view d2 = SUB_VIEW" "off (d_section d2) = off subViewSection"
          by (simp_all add: doc2_def)
        let ?w4 = "snd (phaseCancelled w3)"
        have k4: "kept w ?w4" using k3 phaseCancelled_kept [of w3] by (rule kept_trans)
        show ?thesis
        proof (cases "fst (phaseCancelled w3)")
          case True
          with assms c1 Inr x1 p1 c3 r3 x3 have "st = Return COMPARE_CANCELLED" "w' = ?w4"
            unfolding unf by simp_all
          moreover have "\<not> neverCancelled w"
          proof
            assume "neverCancelled w"
            with k3 have "neverCancelled w3" by (simp add: kept_def)
            from phaseCancelled_never [OF this] True show False by simp
          qed
          ultimately show ?thesis using k4 by simp
        next
          case p3: False
          show ?thesis
          proof (cases "length h1 < length h2")
            case True
            with assms c1 Inr x1 p1 c3 r3 x3 p3
            have "st = Continue (\<lparr>ci_doc1 = d2, ci_doc2 = d1,
                         ci_selectionCompare = (len mainViewSection \<noteq> 0 \<or> len subViewSection \<noteq> 0),
                         ci_blockDiffs = []\<rparr>, h2, h1)" "w' = ?w4"
              unfolding unf by simp_all
            with d1 d2 k4 show ?thesis by simp
          next
            case False
            with assms c1 Inr x1 p1 c3 r3 x3 p3
            have "st = Continue (\<lparr>ci_doc1 = d1, ci_doc2 = d2,
                         ci_selectionCompare = (len mainViewSection \<noteq> 0 \<or> len subViewSection \<noteq> 0),
                         ci_blockDiffs = []\<rparr>, h1, h2)" "w' = ?w4"
              unfolding unf by simp_all
            with d1 d2 k4 show ?thesis by simp
          qed
        qed
      qed
    qed
  qed
qed

lemma bd_type_blockOfSpan [simp]: "bd_type (blockOfSpan sp) = sp_type sp"
  by (simp add: blockOfSpan_def)

lemma lineDiff_cases:
  assumes "lineDiff diffLines ci h1 h2 = st"
  shows "case st of
       Fault e \<Rightarrow> diffLines h1 h2 = Inl e
     | Return r \<Rightarrow> r = COMPARE_MATCH \<and> (\<exists>sp. diffLines h1 h2 = Inr [sp] \<and> sp_type sp = DIFF_MATCH)
     | Continue ci' \<Rightarrow>
         (\<exists>spans. diffLines h1 h2 = Inr spans \<and> ci' = ci\<lparr>ci_blockDiffs := map blockOfSpan spans\<rparr>
             \<and> \<not> (\<exists>sp. spans = [sp] \<and> sp_type sp = DIFF_MATCH))"
proof (cases "diffLines h1 h2")
  case (Inl e)
  with assms show ?thesis by (auto simp: lineDiff_def)
next
  case (Inr spans)
  show ?thesis
  proof (cases "length spans = 1 \<and> sp_type (spans ! 0) = DIFF_MATCH")
    case True
    then obtain sp where "spans = [sp]" by (cases spans) auto
    with True Inr assms show ?thesis by (auto simp: lineDiff_def)
  next
    case False
    then have "\<not> (\<exists>sp. spans = [sp] \<and> sp_type sp = DIFF_MATCH)" by auto
    with False Inr assms show ?thesis by (auto simp: lineDiff_def Let_def)
  qed
qed

lemma views_distinct: "MAIN_VIEW \<noteq> SUB_VIEW"
  by (simp add: MAIN_VIEW_def SUB_VIEW_def)

lemma getView_simps:
  "getView w MAIN_VIEW = mainView w" "getView w SUB_VIEW = subView w"
  "setView MAIN_VIEW v w = w\<lparr>mainView := v\<rparr>" "setView SUB_VIEW v w = w\<lparr>subView := v\<rparr>"
  by (simp_all add: getView_def setView_def MAIN_VIEW_def SUB_VIEW_def)

lemma insertBlankLines_main_sub:
  "lineAdded w (insertBlankLines MAIN_VIEW SUB_VIEW w)
         \<and> progress (insertBlankLines MAIN_VIEW SUB_VIEW w) = progress w
         \<and> messages (insertBlankLines MAIN_VIEW SUB_VIEW w) = messages w"
  by (cases "v_modified (mainView w)"; cases "v_modified (subView w)";
      cases "v_readOnly (mainView w)"; cases "v_readOnly (subView w)")
     (simp_all add: insertBlankLines_def Let_def onView_def getView_simps writeEnable_def
        writeRestore_def SCI_INSERTTEXT0_def SCI_SETSAVEPOINT_def lineAdded_def lineAddedTo_def)

lemma insertBlankLines_sub_main:
  "lineAdded w (insertBlankLines SUB_VIEW MAIN_VIEW w)
         \<and> progress (insertBlankLines SUB_VIEW MAIN_VIEW w) = progress w
         \<and> messages (insertBlankLines SUB_VIEW MAIN_VIEW w) = messages w"
  by (cases "v_modified (mainView w)"; cases "v_modified (subView w)";
      cases "v_readOnly (mainView w)"; cases "v_readOnly (subView w)")
     (simp_all add: insertBlankLines_def Let_def onView_def getView_simps writeEnable_def
        writeRestore_def SCI_INSERTTEXT0_def SCI_SETSAVEPOINT_def lineAdded_def lineAddedTo_def)

lemma insertBlankLines_lineAdded:
  assumes "(view1 = MAIN_VIEW \<and> view2 = SUB_VIEW) \<or> (view1 = SUB_VIEW \<and> view2 = MAIN_VIEW)"
  shows "lineAdded w (insertBlankLines view1 view2 w)
         \<and> progress (insertBlankLines view1 view2 w) = progress w
         \<and> messages (insertBlankLines view1 view2 w) = messages w"
  using assms insertBlankLines_main_sub [of w] insertBlankLines_sub_main [of w] by blast

lemma insertLeadingLines_cases:
  assumes "insertLeadingLines ci w = (st, w')"
    and "(d_view (ci_doc1 ci) = MAIN_VIEW \<and> d_view (ci_doc2 ci) = SUB_VIEW)
         \<or> (d_view (ci_doc1 ci) = SUB_VIEW \<and> d_view (ci_doc2 ci) = MAIN_VIEW)"
  shows "progress w' = progress w \<and> messages w' = messages w \<and>
    (if ci_blockDiffs ci = [] then st = Fault UndefinedBehaviour \<and> w' = w
     else if bd_type (ci_blockDiffs ci ! 0) \<noteq> DIFF_MATCH \<and>
             (off (d_section (ci_doc1 ci)) = 0 \<or> off (d_section (ci_doc2 ci)) = 0)
     then st = Continue (ci\<lparr>ci_doc1 := bumpOff (ci_doc1 ci), ci_doc2 := bumpOff (ci_doc2 ci)\<rparr>)
          \<and> lineAdded w w'
     else st = Continue ci \<and> w' = w)"
proof -
  note ib = insertBlankLines_lineAdded [OF assms(2), of w]
  show ?thesis
  proof (cases "ci_blockDiffs ci = []")
    case True
    with assms(1) show ?thesis by (simp add: insertLeadingLines_def)
  next
    case ne: False
    show ?thesis
    proof (cases "bd_type (ci_blockDiffs ci ! 0) \<noteq> DIFF_MATCH \<and>
             (off (d_section (ci_doc1 ci)) = 0 \<or> off (d_section (ci_doc2 ci)) = 0)")
      case True
      with assms(1) ne
      have "st = Continue (ci\<lparr>ci_doc1 := bumpOff (ci_doc1 ci), ci_doc2 := bumpOff (ci_doc2 ci)\<rparr>)"
        "w' = insertBlankLines (d_view (ci_doc1 ci)) (d_view (ci_doc2 ci)) w"
        unfolding insertLeadingLines_def by simp_all
      with ib ne True show ?thesis by simp
    next
      case False
      with assms(1) ne have "st = Continue ci" "w' = w"
        unfolding insertLeadingLines_def by simp_all
      with ne False show ?thesis by auto
    qed
  qed
qed

lemma compareBlocksLoop_kept:
  "compareBlocksLoop dw s d1 d2 idx bds w = (st, w')
   \<Longrightarrow> kept w w' \<and> (case st of Return r \<Rightarrow> r = COMPARE_CANCELLED \<and> \<not> neverCancelled w
                                 | Fault e \<Rightarrow> True
                                 | Continue bds' \<Rightarrow> True)"
proof (induction idx arbitrary: bds w)
  case Nil
  then show ?case by auto
next
  case (Cons i idx)
  show ?case
  proof (cases "compareBlockAt dw s d1 d2 i bds w")
    case (Inl e)
    with Cons.prems show ?thesis by auto
  next
    case (Inr bds1)
    let ?w = "snd (advanceCancelled w)"
    have k: "kept w ?w" by (rule advanceCancelled_kept)
    show ?thesis
    proof (cases "fst (advanceCancelled w)")
      case True
      with Cons.prems Inr have "st = Return COMPARE_CANCELLED" "w' = ?w" by simp_all
      with k True advanceCancelled_never [of w] show ?thesis by auto
    next
      case False
      with Cons.prems Inr have "compareBlocksLoop dw s d1 d2 idx bds1 ?w = (st, w')" by simp
      from Cons.IH [OF this] have a: "kept ?w w'"
        and b: "case st of Return r \<Rightarrow> r = COMPARE_CANCELLED \<and> \<not> neverCancelled ?w
                  | Fault e \<Rightarrow> True | Continue bds' \<Rightarrow> True" by simp_all
      from k a have ka: "kept w w'" by (rule kept_trans)
      from b k have "case st of Return r \<Rightarrow> r = COMPARE_CANCELLED \<and> \<not> neverCancelled w
                  | Fault e \<Rightarrow> True | Continue bds' \<Rightarrow> True"
        by (cases st) (auto simp: kept_def)
      with ka show ?thesis by simp
    qed
  qed
qed

lemma compareAllBlocks_kept:
  assumes "compareAllBlocks dw s ci w = (st, w')"
  shows "kept w w' \<and> (case st of Return r \<Rightarrow> r = COMPARE_CANCELLED \<and> \<not> neverCancelled w
                                 | Fault e \<Rightarrow> True
                                 | Continue ci' \<Rightarrow> True)"
proof (cases "fst (phaseCancelled w)")
  case True
  with assms have "st = Return COMPARE_CANCELLED" "w' = snd (phaseCancelled w)"
    by (simp_all add: compareAllBlocks_def)
  with True phaseCancelled_kept [of w] phaseCancelled_never [of w] show ?thesis by auto
next
  case False
  define w1 where "w1 = snd (phaseCancelled w)"
  define w2 where "w2 = (if p_open (progress w1)
                      then SetMaxCount (int (length (ci_blockDiffs ci))) w1 else w1)"
  have k1: "kept w w1" unfolding w1_def by (rule phaseCancelled_kept)
  have "kept w1 w2" by (simp add: w2_def SetMaxCount_kept)
  with k1 have k2: "kept w w2" by (rule kept_trans)
  obtain st3 w3 where loop: "compareBlocksLoop dw s (ci_doc1 ci) (ci_doc2 ci)
                      [0..<length (ci_blockDiffs ci)] (ci_blockDiffs ci) w2 = (st3, w3)"
    by (cases "compareBlocksLoop dw s (ci_doc1 ci) (ci_doc2 ci)
                      [0..<length (ci_blockDiffs ci)] (ci_blockDiffs ci) w2") auto
  from compareBlocksLoop_kept [OF loop] have k3': "kept w2 w3"
    and c3: "case st3 of Return r \<Rightarrow> r = COMPARE_CANCELLED \<and> \<not> neverCancelled w2
                  | Fault e \<Rightarrow> True | Continue bds' \<Rightarrow> True" by simp_all
  from k2 k3' have k3: "kept w w3" by (rule kept_trans)
  note unf = compareAllBlocks_def [of dw s ci w, unfolded Let_def, folded w1_def, folded w2_def]
  show ?thesis
  proof (cases st3)
    case (Fault e)
    with assms False loop have "st = Fault e" "w' = w3" unfolding unf by simp_all
    with k3 show ?thesis by simp
  next
    case (Return r)
    with assms False loop have "st = Return r" "w' = w3" unfolding unf by simp_all
    moreover from c3 Return k2 have "r = COMPARE_CANCELLED \<and> \<not> neverCancelled w"
      by (auto simp: kept_def)
    ultimately show ?thesis using k3 by simp
  next
    case (Continue bds')
    have k4: "kept w (snd (phaseCancelled w3))"
      using k3 phaseCancelled_kept [of w3] by (rule kept_trans)
    show ?thesis
    proof (cases "fst (phaseCancelled w3)")
      case True
      with assms False loop Continue have "st = Return COMPARE_CANCELLED" "w' = snd (phaseCancelled w3)"
        unfolding unf by simp_all
      moreover have "\<not> neverCancelled w"
      proof
        assume "neverCancelled w"
        with k3 have "neverCancelled w3" by (simp add: kept_def)
        from phaseCancelled_never [OF this] True show False by simp
      qed
      ultimately show ?thesis using k4 by simp
    next
      case f: False
      with assms False loop Continue have "st = Continue (ci\<lparr>ci_blockDiffs := bds'\<rparr>)"
        "w' = snd (phaseCancelled w3)"
        unfolding unf by simp_all
      with k4 show ?thesis by simp
    qed
  qed
qed

lemma findMoves_sameShape:
  assumes "findMoves bds h1 h2 = Some bds'"
  shows "sameShape bds bds'"
proof -
  from assms have "findMovesBlocks h1 h2 [0..<length bds] bds = Some bds'"
    by (simp add: findMoves_def)
  from findMovesBlocks_commits [OF this] have "(committedRunAt h1 h2)\<^sup>*\<^sup>* bds bds'" by simp
  then show ?thesis by (rule commits_sameShape)
qed

lemma lineAdded_compose:
  "docsKept a b \<Longrightarrow> lineAdded b c \<Longrightarrow> docsKept c d \<Longrightarrow> lineAdded a d"
  by (simp add: docsKept_def docFrame_def lineAdded_def lineAddedTo_def)

lemma neverCancelled_progress:
  "progress w' = progress w \<Longrightarrow> neverCancelled w' = neverCancelled w"
  by (simp add: neverCancelled_def)

lemma runCompare_summary:
  assumes run: "runCompare mm diffLines diffWords mainViewSection subViewSection settings ai w
                  = Some (res, ai', w')"
  shows "res \<noteq> Inr COMPARE_ERROR
     \<and> ((res = Inr COMPARE_MATCH)
          = (\<exists>sp. lineLevelDiff mm diffLines mainViewSection subViewSection settings w = Some [sp]
                   \<and> sp_type sp = DIFF_MATCH))
     \<and> (neverCancelled w \<longrightarrow> res \<noteq> Inr COMPARE_CANCELLED)
     \<and> (if (\<exists>spans. lineLevelDiff mm diffLines mainViewSection subViewSection settings w = Some spans
                     \<and> spans \<noteq> [] \<and> sp_type (spans ! 0) \<noteq> DIFF_MATCH)
             \<and> (off mainViewSection = 0 \<or> off subViewSection = 0)
         then lineAdded w w' else docsKept w w')
     \<and> messages w' = messages w"
proof -
  let ?lld = "lineLevelDiff mm diffLines mainViewSection subViewSection settings w"
  obtain st1 w1 where h: "hashLines mm mainViewSection subViewSection settings w = (st1, w1)"
    by (cases "hashLines mm mainViewSection subViewSection settings w") auto
  from hashLines_cases [OF h] have k1: "kept w w1"
    and c1: "case st1 of
       Fault e \<Rightarrow> e \<noteq> UndefinedBehaviour
     | Return r \<Rightarrow> r = COMPARE_CANCELLED \<and> \<not> neverCancelled w
     | Continue x \<Rightarrow>
         ci_blockDiffs (fst x) = [] \<and>
         ((d_view (ci_doc1 (fst x)) = MAIN_VIEW \<and> d_view (ci_doc2 (fst x)) = SUB_VIEW \<and>
           off (d_section (ci_doc1 (fst x))) = off mainViewSection \<and>
           off (d_section (ci_doc2 (fst x))) = off subViewSection)
          \<or> (d_view (ci_doc1 (fst x)) = SUB_VIEW \<and> d_view (ci_doc2 (fst x)) = MAIN_VIEW \<and>
              off (d_section (ci_doc1 (fst x))) = off subViewSection \<and>
              off (d_section (ci_doc2 (fst x))) = off mainViewSection))"
    by simp_all
  from k1 have d1: "docsKept w w1" and m1: "messages w1 = messages w" by (simp_all add: kept_def)
  show ?thesis
  proof (cases st1)
    case (Fault e)
    with run h have "res = Inl e" "w' = w1" by (simp_all add: runCompare_def)
    moreover from h Fault have "?lld = None" by (simp add: lineLevelDiff_def)
    ultimately show ?thesis using d1 m1 by simp
  next
    case (Return r)
    with run h have "res = Inr r" "w' = w1" by (simp_all add: runCompare_def)
    moreover from h Return have "?lld = None" by (simp add: lineLevelDiff_def)
    moreover from c1 Return have "r = COMPARE_CANCELLED" "\<not> neverCancelled w" by simp_all
    ultimately show ?thesis using d1 m1 by simp
  next
    case (Continue x)
    obtain ci h1 h2 where x: "x = (ci, h1, h2)" by (cases x) auto
    from c1 Continue x have views: "(d_view (ci_doc1 ci) = MAIN_VIEW \<and> d_view (ci_doc2 ci) = SUB_VIEW)
         \<or> (d_view (ci_doc1 ci) = SUB_VIEW \<and> d_view (ci_doc2 ci) = MAIN_VIEW)"
      and offs: "(off (d_section (ci_doc1 ci)) = 0 \<or> off (d_section (ci_doc2 ci)) = 0)
                   = (off mainViewSection = 0 \<or> off subViewSection = 0)"
      by auto
    from h Continue x have lld: "?lld = (case diffLines h1 h2 of Inl e \<Rightarrow> None | Inr spans \<Rightarrow> Some spans)"
      by (simp add: lineLevelDiff_def)
    note unf1 = runCompare_def [of mm diffLines diffWords mainViewSection subViewSection settings ai w,
                  unfolded h Continue x, simplified]
    show ?thesis
    proof (cases "lineDiff diffLines ci h1 h2")
      case (Fault e)
      with run have "res = Inl e" "w' = w1" unfolding unf1 by simp_all
      moreover from lineDiff_cases [OF Fault] lld have "?lld = None" by simp
      ultimately show ?thesis using d1 m1 by simp
    next
      case (Return r)
      with run have "res = Inr r" "w' = w1" unfolding unf1 by simp_all
      moreover from lineDiff_cases [OF Return] lld obtain sp where
        "r = COMPARE_MATCH" "?lld = Some [sp]" "sp_type sp = DIFF_MATCH" by auto
      ultimately show ?thesis using d1 m1 by simp
    next
      case ld: (Continue ci1)
      from lineDiff_cases [OF ld] obtain spans where
        dl: "diffLines h1 h2 = Inr spans" and ci1: "ci1 = ci\<lparr>ci_blockDiffs := map blockOfSpan spans\<rparr>"
        and ns: "\<not> (\<exists>sp. spans = [sp] \<and> sp_type sp = DIFF_MATCH)" by auto
      from lld dl have lld': "?lld = Some spans" by simp
      from ns lld' have nm: "\<not> (\<exists>sp. ?lld = Some [sp] \<and> sp_type sp = DIFF_MATCH)" by simp
      let ?fm = "(if DetectMoves settings then findMoves (ci_blockDiffs ci1) h1 h2
                  else Some (ci_blockDiffs ci1))"
      from run ld obtain bds where fm: "?fm = Some bds"
        unfolding unf1 by (cases ?fm) simp_all
      have shape: "sameShape (ci_blockDiffs ci1) bds"
      proof (cases "DetectMoves settings")
        case True
        with fm show ?thesis by (simp add: findMoves_sameShape)
      next
        case False
        with fm show ?thesis by (simp add: sameShape_refl)
      qed
      then have len: "length bds = length spans"
        and ty: "\<forall>j < length spans. bd_type (bds ! j) = sp_type (spans ! j)"
        by (simp_all add: sameShape_def ci1)
      from len have empty: "(bds = []) = (spans = [])" by auto
      define ci1' where "ci1' = ci1\<lparr>ci_blockDiffs := bds\<rparr>"
      have views': "(d_view (ci_doc1 ci1') = MAIN_VIEW \<and> d_view (ci_doc2 ci1') = SUB_VIEW)
         \<or> (d_view (ci_doc1 ci1') = SUB_VIEW \<and> d_view (ci_doc2 ci1') = MAIN_VIEW)"
        using views by (simp add: ci1'_def ci1)
      obtain st2 w2 where il: "insertLeadingLines ci1' w1 = (st2, w2)"
        by (cases "insertLeadingLines ci1' w1") auto
      note ic = insertLeadingLines_cases [OF il views']
      from ic have p2: "progress w2 = progress w1" and m2: "messages w2 = messages w1" by simp_all
      note unf2 = unf1 [unfolded ld, simplified, unfolded fm, simplified, folded ci1'_def,
                        unfolded il, simplified]
      show ?thesis
      proof (cases "spans = []")
        case True
        with empty ic have "st2 = Fault UndefinedBehaviour" "w2 = w1" by (simp_all add: ci1'_def)
        with run have "res = Inl UndefinedBehaviour" "w' = w1" unfolding unf2 by simp_all
        with True lld' d1 m1 show ?thesis by simp
      next
        case ne: False
        with ty have ty0: "bd_type (bds ! 0) = sp_type (spans ! 0)" by simp
        define C where "C = (sp_type (spans ! 0) \<noteq> DIFF_MATCH
                               \<and> (off mainViewSection = 0 \<or> off subViewSection = 0))"
        have Ceq: "((\<exists>spans. ?lld = Some spans \<and> spans \<noteq> [] \<and> sp_type (spans ! 0) \<noteq> DIFF_MATCH)
                      \<and> (off mainViewSection = 0 \<or> off subViewSection = 0)) = C"
          using lld' ne by (simp add: C_def)
        from ne empty ic ty0 offs obtain ci2 where st2: "st2 = Continue ci2"
          and ins: "if C then lineAdded w1 w2 else w2 = w1"
          by (auto simp: ci1'_def ci1 C_def split: if_splits)
        obtain st3 w3 where ca: "compareAllBlocks diffWords settings (rebaseOffsets ci2) w2 = (st3, w3)"
          by (cases "compareAllBlocks diffWords settings (rebaseOffsets ci2) w2") auto
        from compareAllBlocks_kept [OF ca] have k3: "kept w2 w3"
          and c3: "case st3 of Return r \<Rightarrow> r = COMPARE_CANCELLED \<and> \<not> neverCancelled w2
                                 | Fault e \<Rightarrow> True | Continue ci' \<Rightarrow> True" by simp_all
        have nc2: "neverCancelled w \<longrightarrow> neverCancelled w2"
          using k1 neverCancelled_progress [OF p2] by (simp add: kept_def)
        note unf3 = unf2 [unfolded st2, simplified, unfolded ca, simplified]
        have frame: "\<And>wf. kept w2 wf \<Longrightarrow>
                 (if C then lineAdded w wf else docsKept w wf) \<and> messages wf = messages w"
        proof -
          fix wf assume kf: "kept w2 wf"
          then have df: "docsKept w2 wf" and mf: "messages wf = messages w2" by (simp_all add: kept_def)
          show "(if C then lineAdded w wf else docsKept w wf) \<and> messages wf = messages w"
          proof (cases C)
            case True
            with ins have "lineAdded w1 w2" by simp
            from lineAdded_compose [OF d1 this df] True mf m2 m1 show ?thesis by simp
          next
            case False
            with ins have "w2 = w1" by simp
            with d1 df have "docsKept w wf" by (blast intro: docsKept_trans)
            with False mf m2 m1 show ?thesis by simp
          qed
        qed
        show ?thesis
        proof (cases st3)
          case (Fault e)
          with run have "res = Inl e" "w' = w3" unfolding unf3 by simp_all
          with frame [OF k3] nm show ?thesis unfolding Ceq by simp
        next
          case (Return r)
          with run have "res = Inr r" "w' = w3" unfolding unf3 by simp_all
          moreover from c3 Return nc2 have "r = COMPARE_CANCELLED" "\<not> neverCancelled w" by auto
          ultimately show ?thesis using frame [OF k3] nm unfolding Ceq by simp
        next
          case c: (Continue ci3)
          from run c obtain ok where ma: "markAllDiffs mm ci3 w3 = Some (ok, ai', w')"
            and res: "res = Inr (if ok then COMPARE_MISMATCH else COMPARE_CANCELLED)"
            unfolding unf3 by (auto split: option.splits)
          from markAllDiffs_kept [OF ma] have k4: "kept w3 w'" and ok: "neverCancelled w3 \<longrightarrow> ok"
            by simp_all
          from k3 k4 have k: "kept w2 w'" by (rule kept_trans)
          from nc2 k3 ok have "neverCancelled w \<longrightarrow> ok" by (simp add: kept_def)
          with res frame [OF k] nm show ?thesis unfolding Ceq by auto
        qed
      qed
    qed
  qed
qed

subsection \<open>The compare mode: the returned value\<close>

lemma outcome_Some:
  "outcome r = Some x \<Longrightarrow> \<exists>ai w. r = Some (x, ai, w)"
  by (cases r) (auto simp: outcome_def)



subsection \<open>The entry point\<close>

lemma runFindUnique_no_error:
  assumes "runFindUnique mm mainViewSection subViewSection settings w = (Inr (r, ai), w')"
  shows "r \<noteq> COMPARE_ERROR"
proof -
  define doc1 where "doc1 = \<lparr>d_view = MAIN_VIEW, d_section = mainViewSection,
                  d_blockDiffMask = (if OldFileViewId settings = MAIN_VIEW
                                     then MARKER_MASK_REMOVED mm else MARKER_MASK_ADDED mm)\<rparr>"
  define doc2 where "doc2 = \<lparr>d_view = SUB_VIEW, d_section = subViewSection,
                  d_blockDiffMask = (if OldFileViewId settings = MAIN_VIEW
                                     then MARKER_MASK_ADDED mm else MARKER_MASK_REMOVED mm)\<rparr>"
  note unf = runFindUnique_def [of mm mainViewSection subViewSection settings w,
                unfolded Let_def, folded doc1_def doc2_def]
  from assms show ?thesis
    unfolding unf
    by (auto split: prod.splits sum.splits bool.splits if_splits)
qed

lemma runMode_no_error:
  assumes "runMode mm diffLines diffWords mainViewSection subViewSection findUniqueMode settings ai w
             = Some (Inr r, ai', w')"
  shows "r \<noteq> COMPARE_ERROR"
proof (cases findUniqueMode)
  case True
  with assms obtain ai1 where
    "runFindUnique mm mainViewSection subViewSection settings w = (Inr (r, ai1), w')"
    by (auto simp: runMode_def split: prod.splits sum.splits)
  then show ?thesis by (rule runFindUnique_no_error)
next
  case False
  with assms have "runCompare mm diffLines diffWords mainViewSection subViewSection settings ai w
                     = Some (Inr r, ai', w')"
    by (simp add: runMode_def)
  from runCompare_summary [OF this] show ?thesis by simp
qed

text \<open>
  C9. \<open>compareViews\<close> runs the mode on the world with the progress dialog opened
  (when \<open>progressInfo\<close> is given). When the mode throws an exception, \<open>compareViews\<close>
  returns ERROR, the dialog is closed and one message has been shown. ERROR is
  returned only then: the modes themselves never return it. Whatever value
  \<open>compareViews\<close> returns, the dialog is closed afterwards.
\<close>

theorem compareViews_catches_exceptions:
  "(\<forall>e. outcome (runMode mm diffLines diffWords mainViewSection subViewSection findUniqueMode settings
                    alignmentInfo (if progressInfo \<noteq> None then ProgressDlg_Open w else w)) = Some (Inl e)
          \<and> e \<noteq> UndefinedBehaviour
        \<longrightarrow> outcome (compareViews mm diffLines diffWords mainViewSection subViewSection findUniqueMode
                        settings progressInfo alignmentInfo w) = Some (Inr COMPARE_ERROR)
            \<and> (\<exists>w1 w' msg.
                  finalWorld (runMode mm diffLines diffWords mainViewSection subViewSection findUniqueMode
                      settings alignmentInfo (if progressInfo \<noteq> None then ProgressDlg_Open w else w))
                    = Some w1
                  \<and> finalWorld (compareViews mm diffLines diffWords mainViewSection subViewSection
                        findUniqueMode settings progressInfo alignmentInfo w) = Some w'
                  \<and> \<not> p_open (progress w') \<and> messages w' = messages w1 @ [msg]))
   \<and> (outcome (compareViews mm diffLines diffWords mainViewSection subViewSection findUniqueMode
                  settings progressInfo alignmentInfo w) = Some (Inr COMPARE_ERROR)
        \<longrightarrow> (\<exists>e. e \<noteq> UndefinedBehaviour
                \<and> outcome (runMode mm diffLines diffWords mainViewSection subViewSection findUniqueMode
                      settings alignmentInfo (if progressInfo \<noteq> None then ProgressDlg_Open w else w))
                    = Some (Inl e)))
   \<and> (\<forall>r w'. outcome (compareViews mm diffLines diffWords mainViewSection subViewSection findUniqueMode
                          settings progressInfo alignmentInfo w) = Some (Inr r)
               \<and> finalWorld (compareViews mm diffLines diffWords mainViewSection subViewSection
                     findUniqueMode settings progressInfo alignmentInfo w) = Some w'
        \<longrightarrow> \<not> p_open (progress w'))"
proof -
  define w0 where "w0 = (if progressInfo \<noteq> None then ProgressDlg_Open w else w)"
  define run where "run = runMode mm diffLines diffWords mainViewSection subViewSection findUniqueMode
                            settings alignmentInfo w0"
  define cv where "cv = compareViews mm diffLines diffWords mainViewSection subViewSection findUniqueMode
                          settings progressInfo alignmentInfo w"
  have cv: "cv = (case run of
           None \<Rightarrow> None
         | Some (Inr result, alignmentInfo', w1) \<Rightarrow> Some (Inr result, alignmentInfo', ProgressDlg_Close w1)
         | Some (Inl (Exception what), alignmentInfo', w1) \<Rightarrow>
             Some (Inr COMPARE_ERROR, alignmentInfo',
                   MessageBoxA (take 127 (''Exception occurred: '' @ what)) (ProgressDlg_Close w1))
         | Some (Inl UnknownException, alignmentInfo', w1) \<Rightarrow>
             Some (Inr COMPARE_ERROR, alignmentInfo',
                   MessageBoxA ''Unknown exception occurred.'' (ProgressDlg_Close w1))
         | Some (Inl UndefinedBehaviour, alignmentInfo', w1) \<Rightarrow>
             Some (Inl UndefinedBehaviour, alignmentInfo', w1))"
    unfolding cv_def run_def w0_def compareViews_def Let_def ..
  have closed: "\<And>w1 msg. \<not> p_open (progress (ProgressDlg_Close w1))
                  \<and> \<not> p_open (progress (MessageBoxA msg (ProgressDlg_Close w1)))
                  \<and> messages (MessageBoxA msg (ProgressDlg_Close w1)) = messages w1 @ [msg]"
    by (simp add: ProgressDlg_Close_def MessageBoxA_def)
  have a: "\<forall>e. outcome run = Some (Inl e) \<and> e \<noteq> UndefinedBehaviour
        \<longrightarrow> outcome cv = Some (Inr COMPARE_ERROR)
            \<and> (\<exists>w1 w' msg. finalWorld run = Some w1 \<and> finalWorld cv = Some w'
                  \<and> \<not> p_open (progress w') \<and> messages w' = messages w1 @ [msg])"
  proof (intro allI impI)
    fix e assume "outcome run = Some (Inl e) \<and> e \<noteq> UndefinedBehaviour"
    then obtain ai1 w1 where r: "run = Some (Inl e, ai1, w1)" and e: "e \<noteq> UndefinedBehaviour"
      using outcome_Some by blast
    show "outcome cv = Some (Inr COMPARE_ERROR)
            \<and> (\<exists>w1 w' msg. finalWorld run = Some w1 \<and> finalWorld cv = Some w'
                  \<and> \<not> p_open (progress w') \<and> messages w' = messages w1 @ [msg])"
    proof (cases e)
      case (Exception what)
      with r have "cv = Some (Inr COMPARE_ERROR, ai1,
                     MessageBoxA (take 127 (''Exception occurred: '' @ what)) (ProgressDlg_Close w1))"
        unfolding cv by simp
      with r closed show ?thesis by (auto simp: outcome_def finalWorld_def)
    next
      case UnknownException
      with r have "cv = Some (Inr COMPARE_ERROR, ai1,
                     MessageBoxA ''Unknown exception occurred.'' (ProgressDlg_Close w1))"
        unfolding cv by simp
      with r closed show ?thesis by (auto simp: outcome_def finalWorld_def)
    next
      case UndefinedBehaviour
      with e show ?thesis by simp
    qed
  qed
  have noerr: "\<And>r ai1 w1. run = Some (Inr r, ai1, w1) \<Longrightarrow> r \<noteq> COMPARE_ERROR"
    unfolding run_def by (rule runMode_no_error)
  have b: "outcome cv = Some (Inr COMPARE_ERROR)
        \<longrightarrow> (\<exists>e. e \<noteq> UndefinedBehaviour \<and> outcome run = Some (Inl e))"
  proof
    assume o: "outcome cv = Some (Inr COMPARE_ERROR)"
    show "\<exists>e. e \<noteq> UndefinedBehaviour \<and> outcome run = Some (Inl e)"
    proof (cases run)
      case None
      with o show ?thesis unfolding cv by (simp add: outcome_def)
    next
      case (Some x)
      obtain res ai1 w1 where x: "x = (res, ai1, w1)" by (cases x) auto
      show ?thesis
      proof (cases res)
        case (Inr r)
        with Some x o have "r = COMPARE_ERROR" unfolding cv by (simp add: outcome_def)
        with noerr [of r ai1 w1] Some x Inr show ?thesis by simp
      next
        case (Inl e)
        with Some x o have "e \<noteq> UndefinedBehaviour"
          unfolding cv by (cases e) (simp_all add: outcome_def)
        with Some x Inl show ?thesis by (auto simp: outcome_def)
      qed
    qed
  qed
  have c: "\<forall>r w'. outcome cv = Some (Inr r) \<and> finalWorld cv = Some w' \<longrightarrow> \<not> p_open (progress w')"
  proof (intro allI impI)
    fix r w' assume o: "outcome cv = Some (Inr r) \<and> finalWorld cv = Some w'"
    show "\<not> p_open (progress w')"
    proof (cases run)
      case None
      with o show ?thesis unfolding cv by (simp add: outcome_def)
    next
      case (Some x)
      obtain res ai1 w1 where x: "x = (res, ai1, w1)" by (cases x) auto
      show ?thesis
      proof (cases res)
        case (Inr r')
        with Some x o have "w' = ProgressDlg_Close w1" unfolding cv by (simp add: finalWorld_def)
        with closed show ?thesis by simp
      next
        case (Inl e)
        with Some x o closed show ?thesis
          unfolding cv by (cases e) (auto simp: outcome_def finalWorld_def)
      qed
    qed
  qed
  from a b c show ?thesis unfolding run_def cv_def w0_def by blast
qed

theorem compareViews_catches_exceptions_witness:
  "outcome (runMode exMasks DiffCalcSpec diffWordsSpec \<lparr>off = 5, len = 1\<rparr> \<lparr>off = 0, len = 0\<rparr> False
              (settingsOf False False True) []
              (if Some ''Comparing'' \<noteq> None
               then ProgressDlg_Open (worldOf [0x61, 0x0A, 0x62] [0x61, 0x0A, 0x63] None)
               else worldOf [0x61, 0x0A, 0x62] [0x61, 0x0A, 0x63] None))
     = Some (Inl (Exception ''vector too long''))
   \<and> Exception ''vector too long'' \<noteq> UndefinedBehaviour
   \<and> outcome (compareViews exMasks DiffCalcSpec diffWordsSpec \<lparr>off = 5, len = 1\<rparr> \<lparr>off = 0, len = 0\<rparr> False
                (settingsOf False False True) (Some ''Comparing'') []
                (worldOf [0x61, 0x0A, 0x62] [0x61, 0x0A, 0x63] None))
       = Some (Inr COMPARE_ERROR)
   \<and> (\<exists>w'. finalWorld (compareViews exMasks DiffCalcSpec diffWordsSpec \<lparr>off = 5, len = 1\<rparr>
                  \<lparr>off = 0, len = 0\<rparr> False (settingsOf False False True) (Some ''Comparing'') []
                  (worldOf [0x61, 0x0A, 0x62] [0x61, 0x0A, 0x63] None)) = Some w'
            \<and> \<not> p_open (progress w')
            \<and> messages w' = [''Exception occurred: vector too long''])"
proof -
  let ?W = "worldOf [0x61, 0x0A, 0x62] [0x61, 0x0A, 0x63] None"
  let ?S = "settingsOf False False True"
  let ?a = "\<lparr>off = 5, len = 1\<rparr> :: section_t"
  let ?z = "\<lparr>off = 0, len = 0\<rparr> :: section_t"
  let ?cv = "compareViews exMasks DiffCalcSpec diffWordsSpec ?a ?z False ?S (Some ''Comparing'') [] ?W"
  have r: "outcome (runMode exMasks DiffCalcSpec diffWordsSpec ?a ?z False ?S []
              (if Some ''Comparing'' \<noteq> None then ProgressDlg_Open ?W else ?W))
            = Some (Inl (Exception ''vector too long''))"
    by code_simp
  have ne: "Exception ''vector too long'' \<noteq> UndefinedBehaviour" by simp
  from compareViews_catches_exceptions
         [of exMasks DiffCalcSpec diffWordsSpec ?a ?z False ?S "[]" "Some ''Comparing''" ?W] r ne
  obtain w' where o: "outcome ?cv = Some (Inr COMPARE_ERROR)"
    and f: "finalWorld ?cv = Some w'" and c: "\<not> p_open (progress w')"
    by blast
  have "map_option messages (finalWorld ?cv) = Some [''Exception occurred: vector too long'']"
    by code_simp
  with f have m: "messages w' = [''Exception occurred: vector too long'']" by simp
  from r ne o f c m show ?thesis by blast
qed

end
